theory Spec2Isabelle
  imports Main "HOL-Library.Word" "HOL-Library.Multiset" "HOL-Library.Char_ord"
    "HOL-Library.List_Lexorder"
begin

section \<open>Data model of lib/script.js\<close>

text \<open>
  A Buffer is a list of bytes. JavaScript numbers are modelled by their integer values
  plus \<open>NaN\<close> (non-integral numbers are not modelled); a property that is absent reads
  as \<open>undefined\<close>, which is \<open>None\<close>.
\<close>

type_synonym byte = "8 word"
type_synonym bytes = "byte list"

datatype number = Num int | NaN

text \<open>
  The objects that the code stores in, or compares with, the elements of
  \<open>script.chunks\<close>:
  \<^item> \<open>ChunkObj buf len opcodenum\<close>: the object literal \<open>{buf: .., len: .., opcodenum: ..}\<close>
    of \<open>fromBuffer\<close>, \<open>fromString\<close>, \<open>_addBuffer\<close> and \<open>_addOpcode\<close>;
  \<^item> \<open>ScriptObj chunks\<close>: an instance of \<open>Script\<close> (its only field is \<open>chunks\<close>);
  \<^item> \<open>BufferObj bs\<close>: a Buffer;
  \<^item> \<open>OpcodeObj num\<close>: an instance of \<open>Opcode\<close> (its only field is \<open>num\<close>).
\<close>

datatype jsobj =
    ChunkObj "bytes option" "number option" "number option"
  | ScriptObj "jsobj list"
  | BufferObj bytes
  | OpcodeObj "number option"

type_synonym script = "jsobj list"

text \<open>Property reads \<open>o.buf\<close>, \<open>o.len\<close>, \<open>o.opcodenum\<close>, \<open>o.num\<close>, \<open>o.length\<close>.\<close>

fun buf :: "jsobj \<Rightarrow> bytes option" where
  "buf (ChunkObj b l opc) = b"
| "buf _ = None"

fun len :: "jsobj \<Rightarrow> number option" where
  "len (ChunkObj b l opc) = l"
| "len _ = None"

fun opcodenum :: "jsobj \<Rightarrow> number option" where
  "opcodenum (ChunkObj b l opc) = opc"
| "opcodenum _ = None"

fun num :: "jsobj \<Rightarrow> number option" where
  "num (OpcodeObj n) = n"
| "num _ = None"

fun length_prop :: "jsobj \<Rightarrow> number option" where
  "length_prop (BufferObj bs) = Some (Num (int (length bs)))"
| "length_prop _ = None"

datatype error =
    Truncated | InvalidScript | PayloadTooLarge | InvalidArgument
  | PreconditionFailed | TypeError

text \<open>
  JavaScript comparisons of a possibly undefined number with an integer constant:
  \<open>x === n\<close>, \<open>x < n\<close>, \<open>x > n\<close>, \<open>x <= n\<close>, \<open>x >= n\<close>; every ordering comparison with
  \<open>undefined\<close> or \<open>NaN\<close> is false.
\<close>

fun js_eq :: "number option \<Rightarrow> int \<Rightarrow> bool" where
  "js_eq (Some (Num a)) n = (a = n)"
| "js_eq _ n = False"

fun js_lt :: "number option \<Rightarrow> int \<Rightarrow> bool" where
  "js_lt (Some (Num a)) n = (a < n)"
| "js_lt _ n = False"

fun js_gt :: "number option \<Rightarrow> int \<Rightarrow> bool" where
  "js_gt (Some (Num a)) n = (a > n)"
| "js_gt _ n = False"

fun js_le :: "number option \<Rightarrow> int \<Rightarrow> bool" where
  "js_le (Some (Num a)) n = (a \<le> n)"
| "js_le _ n = False"

fun js_ge :: "number option \<Rightarrow> int \<Rightarrow> bool" where
  "js_ge (Some (Num a)) n = (a \<ge> n)"
| "js_ge _ n = False"

text \<open>\<open>x !== y\<close> on two possibly undefined numbers: \<open>NaN\<close> differs from everything.\<close>

fun js_strict_neq :: "number option \<Rightarrow> number option \<Rightarrow> bool" where
  "js_strict_neq (Some NaN) y = True"
| "js_strict_neq x (Some NaN) = True"
| "js_strict_neq x y = (x \<noteq> y)"

subsection \<open>Opcode constants\<close>

text \<open>
  Modelled from the spec: \<open>lib/opcode.js\<close> is not among the sources. The values are those
  of section 3 and of the scenarios E1 to E3 of the spec; \<open>OP_CODESEPARATOR\<close> and
  \<open>OP_CHECKMULTISIG\<close>, named there without a value, have their Bitcoin protocol values.
\<close>

definition OP_0 :: int where "OP_0 = 0"
definition OP_PUSHDATA1 :: int where "OP_PUSHDATA1 = 76"
definition OP_PUSHDATA2 :: int where "OP_PUSHDATA2 = 77"
definition OP_PUSHDATA4 :: int where "OP_PUSHDATA4 = 78"
definition OP_1 :: int where "OP_1 = 81"
definition OP_16 :: int where "OP_16 = 96"
definition OP_RETURN :: int where "OP_RETURN = 106"
definition OP_DUP :: int where "OP_DUP = 118"
definition OP_EQUAL :: int where "OP_EQUAL = 135"
definition OP_EQUALVERIFY :: int where "OP_EQUALVERIFY = 136"
definition OP_HASH160 :: int where "OP_HASH160 = 169"
definition OP_CODESEPARATOR :: int where "OP_CODESEPARATOR = 171"
definition OP_CHECKSIG :: int where "OP_CHECKSIG = 172"
definition OP_CHECKMULTISIG :: int where "OP_CHECKMULTISIG = 174"

lemmas op_defs = OP_0_def OP_PUSHDATA1_def OP_PUSHDATA2_def OP_PUSHDATA4_def OP_1_def
  OP_16_def OP_RETURN_def OP_DUP_def OP_EQUAL_def OP_EQUALVERIFY_def OP_HASH160_def
  OP_CODESEPARATOR_def OP_CHECKSIG_def OP_CHECKMULTISIG_def

subsection \<open>Byte reader and writer\<close>

text \<open>
  Modelled from the spec: \<open>lib/encoding/bufferreader.js\<close> is not among the sources. The
  reader is the bytes from its position on, and multi-byte reads are little-endian. By
  section 4.1 of the spec a read past the end of the stream fails with \<open>Truncated\<close>:
  this is the reader \<open>Strict\<close>. Scenario E3 of the spec needs another \<open>read(n)\<close>: there
  \<open>classify\<close> reaches \<open>isScriptHashIn\<close>, which parses the payload \<open>Hello\<close>, whose first
  byte announces 72 bytes where 4 follow, and the scenario says that \<open>classify\<close> returns
  \<open>DATA_OUT\<close>. This is the reader \<open>Lenient\<close>, whose \<open>read(n)\<close> returns the bytes that are
  left when fewer than \<open>n\<close> are. The reader is a parameter \<open>rd\<close> of the parser and of all
  that calls it; the reads of integers fail past the end for both (scenario E6).
\<close>

datatype reader = Strict | Lenient

definition eof :: "bytes \<Rightarrow> bool" where
  "eof br = (br = [])"

fun readUInt8 :: "bytes \<Rightarrow> error + int \<times> bytes" where
  "readUInt8 (b0 # br) = Inr (uint b0, br)"
| "readUInt8 _ = Inl Truncated"

fun readUInt16LE :: "bytes \<Rightarrow> error + int \<times> bytes" where
  "readUInt16LE (b0 # b1 # br) = Inr (uint b0 + 256 * uint b1, br)"
| "readUInt16LE _ = Inl Truncated"

fun readUInt32LE :: "bytes \<Rightarrow> error + int \<times> bytes" where
  "readUInt32LE (b0 # b1 # b2 # b3 # br) =
     Inr (uint b0 + 256 * uint b1 + 65536 * uint b2 + 16777216 * uint b3, br)"
| "readUInt32LE _ = Inl Truncated"

definition read :: "reader \<Rightarrow> int \<Rightarrow> bytes \<Rightarrow> error + bytes \<times> bytes" where
  "read rd n br =
     (if length br < nat n \<and> rd = Strict then Inl Truncated
      else Inr (take (nat n) br, drop (nat n) br))"

text \<open>
  Modelled from the spec: \<open>lib/encoding/bufferwriter.js\<close> is not among the sources. The
  writer is the bytes written so far. By section 4.1 of the spec writes cannot fail: a
  number is stored in its low 8, 16 or 32 bits, little-endian, and \<open>undefined\<close> and
  \<open>NaN\<close> store zero.
\<close>

fun to_int :: "number option \<Rightarrow> int" where
  "to_int (Some (Num n)) = n"
| "to_int _ = 0"

definition writeUInt8 :: "number option \<Rightarrow> bytes \<Rightarrow> bytes" where
  "writeUInt8 x bw = bw @ [word_of_int (to_int x)]"

definition writeUInt16LE :: "number option \<Rightarrow> bytes \<Rightarrow> bytes" where
  "writeUInt16LE x bw = bw @ [word_of_int (to_int x), word_of_int (to_int x div 256)]"

definition writeUInt32LE :: "number option \<Rightarrow> bytes \<Rightarrow> bytes" where
  "writeUInt32LE x bw =
     bw @ [word_of_int (to_int x), word_of_int (to_int x div 256),
           word_of_int (to_int x div 65536), word_of_int (to_int x div 16777216)]"

definition write_bytes :: "bytes \<Rightarrow> bytes \<Rightarrow> bytes" where
  "write_bytes b bw = bw @ b"

section \<open>Parser and serializer\<close>

text \<open>
  \<open>Script.fromBuffer\<close>: the loop \<open>while (!br.eof())\<close> is the recursion on the reader;
  a failed read aborts the whole parse, as the exception does.
\<close>

definition push_chunk :: "jsobj \<Rightarrow> error + script \<Rightarrow> error + script" where
  "push_chunk c r = (case r of Inl e \<Rightarrow> Inl e | Inr cs \<Rightarrow> Inr (c # cs))"

function fromBuffer :: "reader \<Rightarrow> bytes \<Rightarrow> error + script" where
  "fromBuffer rd br =
     (if eof br then Inr []
      else case readUInt8 br of
        Inl e \<Rightarrow> Inl e
      | Inr (opc, br1) \<Rightarrow>
          if opc > 0 \<and> opc < OP_PUSHDATA1 then
            (case read rd opc br1 of
               Inl e \<Rightarrow> Inl e
             | Inr (b, br2) \<Rightarrow>
                 push_chunk (ChunkObj (Some b) (Some (Num opc)) (Some (Num opc)))
                   (fromBuffer rd br2))
          else if opc = OP_PUSHDATA1 then
            (case readUInt8 br1 of
               Inl e \<Rightarrow> Inl e
             | Inr (l, br2) \<Rightarrow>
                 (case read rd l br2 of
                    Inl e \<Rightarrow> Inl e
                  | Inr (b, br3) \<Rightarrow>
                      push_chunk (ChunkObj (Some b) (Some (Num l)) (Some (Num opc)))
                        (fromBuffer rd br3)))
          else if opc = OP_PUSHDATA2 then
            (case readUInt16LE br1 of
               Inl e \<Rightarrow> Inl e
             | Inr (l, br2) \<Rightarrow>
                 (case read rd l br2 of
                    Inl e \<Rightarrow> Inl e
                  | Inr (b, br3) \<Rightarrow>
                      push_chunk (ChunkObj (Some b) (Some (Num l)) (Some (Num opc)))
                        (fromBuffer rd br3)))
          else if opc = OP_PUSHDATA4 then
            (case readUInt32LE br1 of
               Inl e \<Rightarrow> Inl e
             | Inr (l, br2) \<Rightarrow>
                 (case read rd l br2 of
                    Inl e \<Rightarrow> Inl e
                  | Inr (b, br3) \<Rightarrow>
                      push_chunk (ChunkObj (Some b) (Some (Num l)) (Some (Num opc)))
                        (fromBuffer rd br3)))
          else
            push_chunk (ChunkObj None None (Some (Num opc))) (fromBuffer rd br1))"
  by pat_completeness auto

lemma readUInt8_length: "readUInt8 br = Inr (x, br') \<Longrightarrow> length br' < length br"
  by (cases br) auto

lemma readUInt16LE_length: "readUInt16LE br = Inr (x, br') \<Longrightarrow> length br' < length br"
  by (cases br rule: readUInt16LE.cases) auto

lemma readUInt32LE_length: "readUInt32LE br = Inr (x, br') \<Longrightarrow> length br' < length br"
  by (cases br rule: readUInt32LE.cases) auto

lemma read_length: "read rd n br = Inr (b, br') \<Longrightarrow> length br' \<le> length br"
  by (auto simp: read_def split: if_splits)

termination fromBuffer
proof (relation "measure (\<lambda>(rd, br). length br)", goal_cases)
  case 1
  show ?case by simp
next
  case 2
  then show ?case
    by (auto dest!: readUInt8_length read_length)
next
  case 3
  then show ?case
    by (auto dest!: readUInt8_length read_length)
next
  case 4
  then show ?case
    by (auto dest!: readUInt8_length readUInt16LE_length read_length)
next
  case 5
  then show ?case
    by (auto dest!: readUInt8_length readUInt32LE_length read_length)
next
  case 6
  then show ?case
    by (auto dest!: readUInt8_length)
qed

declare fromBuffer.simps [simp del]

text \<open>
  \<open>Script.prototype.toBuffer\<close>: the loop over the chunks threads the writer; a Buffer is
  truthy, \<open>undefined\<close> is not.
\<close>

definition toBuffer_chunk :: "bytes \<Rightarrow> jsobj \<Rightarrow> bytes" where
  "toBuffer_chunk bw chunk =
     (let opc = opcodenum chunk;
          bw1 = writeUInt8 opc bw
      in case buf chunk of
           None \<Rightarrow> bw1
         | Some b \<Rightarrow>
             if js_lt opc OP_PUSHDATA1 then write_bytes b bw1
             else if js_eq opc OP_PUSHDATA1 then write_bytes b (writeUInt8 (len chunk) bw1)
             else if js_eq opc OP_PUSHDATA2 then write_bytes b (writeUInt16LE (len chunk) bw1)
             else if js_eq opc OP_PUSHDATA4 then write_bytes b (writeUInt32LE (len chunk) bw1)
             else bw1)"

definition toBuffer :: "script \<Rightarrow> bytes" where
  "toBuffer chunks = foldl toBuffer_chunk [] chunks"

subsection \<open>The serializer inverts the parser\<close>

lemma foldl_toBuffer_chunk:
  "foldl toBuffer_chunk bw cs = bw @ foldl toBuffer_chunk [] cs"
proof (induction cs arbitrary: bw)
  case Nil
  show ?case by simp
next
  case (Cons c cs)
  have step: "toBuffer_chunk bw c = bw @ toBuffer_chunk [] c" for bw
    by (simp add: toBuffer_chunk_def Let_def writeUInt8_def writeUInt16LE_def
        writeUInt32LE_def write_bytes_def split: option.splits)
  show ?case
    using Cons.IH [of "toBuffer_chunk bw c"] Cons.IH [of "toBuffer_chunk [] c"] step [of bw]
    by simp
qed

lemma toBuffer_Cons: "toBuffer (c # cs) = toBuffer_chunk [] c @ toBuffer cs"
  unfolding toBuffer_def using foldl_toBuffer_chunk [of "toBuffer_chunk [] c" cs] by simp

lemma toBuffer_Nil: "toBuffer [] = []"
  by (simp add: toBuffer_def)


lemma uint_byte_bounds: "0 \<le> uint (b::byte) \<and> uint b < 256"
  using uint_bounded [of b] by simp

lemma div256: "(uint (b0::byte) + 256 * k) div 256 = k"
  using uint_byte_bounds [of b0] by simp


lemma w256: "(256::byte) = 0"
  by simp

lemma word8_lo: "(word_of_int (uint (b0::byte) + 256 * k) :: byte) = b0"
proof -
  have "(word_of_int (uint b0 + 256 * k) :: byte) = word_of_int (uint b0) + 256 * word_of_int k"
    by simp
  then show ?thesis by (simp only: w256) simp
qed


lemma word8_b1: "(word_of_int ((uint (b0::byte) + 256 * uint (b1::byte)) div 256) :: byte) = b1"
  by (simp add: div256)

lemma word32_bytes:
  fixes b0 b1 b2 b3 :: byte
  defines "n \<equiv> uint b0 + 256 * uint b1 + 65536 * uint b2 + 16777216 * uint b3"
  shows "(word_of_int n :: byte) = b0" and "(word_of_int (n div 256) :: byte) = b1"
    and "(word_of_int (n div 65536) :: byte) = b2"
    and "(word_of_int (n div 16777216) :: byte) = b3"
proof -
  have n1: "n = uint b0 + 256 * (uint b1 + 256 * (uint b2 + 256 * uint b3))"
    by (simp add: n_def)
  show "(word_of_int n :: byte) = b0"
    unfolding n1 by (rule word8_lo)
  have d1: "n div 256 = uint b1 + 256 * (uint b2 + 256 * uint b3)"
    unfolding n1 by (rule div256)
  show "(word_of_int (n div 256) :: byte) = b1"
    unfolding d1 by (rule word8_lo)
  have "n div 65536 = (n div 256) div 256"
    by (simp add: div_mult2_eq [symmetric])
  then have d2: "n div 65536 = uint b2 + 256 * uint b3"
    unfolding d1 by (simp only: div256)
  show "(word_of_int (n div 65536) :: byte) = b2"
    unfolding d2 by (rule word8_lo)
  have "n div 16777216 = (n div 65536) div 256"
    by (simp add: div_mult2_eq [symmetric])
  then have d3: "n div 16777216 = uint b3"
    unfolding d2 by (simp only: div256)
  show "(word_of_int (n div 16777216) :: byte) = b3"
    unfolding d3 by simp
qed

lemma push_chunk_Inr: "push_chunk c r = Inr cs \<Longrightarrow> \<exists>cs'. r = Inr cs' \<and> cs = c # cs'"
  by (cases r) (auto simp: push_chunk_def)

lemma read_Inr: "read rd n br = Inr (b, br') \<Longrightarrow> br = b @ br'"
  by (auto simp: read_def split: if_splits)

lemma fromBuffer_Nil: "fromBuffer rd [] = Inr []"
  by (simp add: fromBuffer.simps eof_def)

lemma fromBuffer_Cons:
  "fromBuffer rd (b0 # br1) =
     (if uint b0 > 0 \<and> uint b0 < OP_PUSHDATA1 then
        (case read rd (uint b0) br1 of
           Inl e \<Rightarrow> Inl e
         | Inr (b, br2) \<Rightarrow>
             push_chunk (ChunkObj (Some b) (Some (Num (uint b0))) (Some (Num (uint b0))))
               (fromBuffer rd br2))
      else if uint b0 = OP_PUSHDATA1 then
        (case readUInt8 br1 of
           Inl e \<Rightarrow> Inl e
         | Inr (l, br2) \<Rightarrow>
             (case read rd l br2 of
                Inl e \<Rightarrow> Inl e
              | Inr (b, br3) \<Rightarrow>
                  push_chunk (ChunkObj (Some b) (Some (Num l)) (Some (Num (uint b0))))
                    (fromBuffer rd br3)))
      else if uint b0 = OP_PUSHDATA2 then
        (case readUInt16LE br1 of
           Inl e \<Rightarrow> Inl e
         | Inr (l, br2) \<Rightarrow>
             (case read rd l br2 of
                Inl e \<Rightarrow> Inl e
              | Inr (b, br3) \<Rightarrow>
                  push_chunk (ChunkObj (Some b) (Some (Num l)) (Some (Num (uint b0))))
                    (fromBuffer rd br3)))
      else if uint b0 = OP_PUSHDATA4 then
        (case readUInt32LE br1 of
           Inl e \<Rightarrow> Inl e
         | Inr (l, br2) \<Rightarrow>
             (case read rd l br2 of
                Inl e \<Rightarrow> Inl e
              | Inr (b, br3) \<Rightarrow>
                  push_chunk (ChunkObj (Some b) (Some (Num l)) (Some (Num (uint b0))))
                    (fromBuffer rd br3)))
      else
        push_chunk (ChunkObj None None (Some (Num (uint b0)))) (fromBuffer rd br1))"
  by (subst fromBuffer.simps) (simp add: eof_def)


lemma byte_of_uint: "uint (b::byte) = n \<Longrightarrow> b = word_of_int n"
  by auto

lemma writeUInt8_read: "writeUInt8 (Some (Num (uint (b::byte)))) bw = bw @ [b]"
  by (simp add: writeUInt8_def)

lemma writeUInt16LE_read:
  "writeUInt16LE (Some (Num (uint (l0::byte) + 256 * uint (l1::byte)))) bw = bw @ [l0, l1]"
  unfolding writeUInt16LE_def to_int.simps by (simp only: word8_lo word8_b1)

lemma writeUInt32LE_read:
  "writeUInt32LE
     (Some (Num (uint (l0::byte) + 256 * uint (l1::byte) + 65536 * uint (l2::byte)
        + 16777216 * uint (l3::byte)))) bw
   = bw @ [l0, l1, l2, l3]"
  unfolding writeUInt32LE_def to_int.simps by (simp only: word32_bytes)

lemma chunk_bytes_direct:
  "uint (b0::byte) < OP_PUSHDATA1 \<Longrightarrow>
   toBuffer_chunk [] (ChunkObj (Some b) l (Some (Num (uint b0)))) = b0 # b"
  by (simp add: toBuffer_chunk_def writeUInt8_def write_bytes_def)

lemma chunk_bytes_bare:
  "toBuffer_chunk [] (ChunkObj None l (Some (Num (uint (b0::byte))))) = [b0]"
  by (simp add: toBuffer_chunk_def writeUInt8_def)

lemma chunk_bytes_pushdata1:
  "uint (b0::byte) = OP_PUSHDATA1 \<Longrightarrow>
   toBuffer_chunk [] (ChunkObj (Some b) l (Some (Num (uint b0)))) = b0 # writeUInt8 l [] @ b"
  using byte_of_uint [of b0 OP_PUSHDATA1]
  by (simp add: toBuffer_chunk_def writeUInt8_def write_bytes_def op_defs)

lemma chunk_bytes_pushdata2:
  "uint (b0::byte) = OP_PUSHDATA2 \<Longrightarrow>
   toBuffer_chunk [] (ChunkObj (Some b) l (Some (Num (uint b0)))) = b0 # writeUInt16LE l [] @ b"
  using byte_of_uint [of b0 OP_PUSHDATA2]
  by (simp add: toBuffer_chunk_def writeUInt8_def writeUInt16LE_def write_bytes_def op_defs)

lemma chunk_bytes_pushdata4:
  "uint (b0::byte) = OP_PUSHDATA4 \<Longrightarrow>
   toBuffer_chunk [] (ChunkObj (Some b) l (Some (Num (uint b0)))) = b0 # writeUInt32LE l [] @ b"
  using byte_of_uint [of b0 OP_PUSHDATA4]
  by (simp add: toBuffer_chunk_def writeUInt8_def writeUInt32LE_def write_bytes_def op_defs)


lemma after_read:
  "(case read rd l br2 of Inl e \<Rightarrow> Inl e
    | Inr (b, br3) \<Rightarrow> push_chunk (mk b) (fromBuffer rd br3)) = Inr cs \<Longrightarrow>
   \<exists>b br3 cs'. br2 = b @ br3 \<and> fromBuffer rd br3 = Inr cs' \<and> cs = mk b # cs'"
  by (auto split: sum.splits dest!: push_chunk_Inr read_Inr)


definition chunk_size :: "jsobj \<Rightarrow> nat" where
  "chunk_size c = (case buf c of None \<Rightarrow> 1 | Some b \<Rightarrow> 1 + length b)"

lemma chunk_size_pos: "1 \<le> chunk_size c"
  by (simp add: chunk_size_def split: option.splits)

definition parsed_step :: "reader \<Rightarrow> bytes \<Rightarrow> script \<Rightarrow> bool" where
  "parsed_step rd br cs =
     (\<exists>c cs' rest. cs = c # cs' \<and> fromBuffer rd rest = Inr cs' \<and>
        br = toBuffer_chunk [] c @ rest \<and> chunk_size c \<le> length (toBuffer_chunk [] c))"

lemma parsed_stepI:
  "cs = c # cs' \<Longrightarrow> fromBuffer rd rest = Inr cs' \<Longrightarrow> toBuffer_chunk [] c = pre \<Longrightarrow>
   br = pre @ rest \<Longrightarrow> chunk_size c \<le> length pre \<Longrightarrow> parsed_step rd br cs"
  unfolding parsed_step_def by blast

lemma fromBuffer_step:
  assumes "fromBuffer rd (b0 # br1) = Inr cs"
  shows "parsed_step rd (b0 # br1) cs"
proof -
  note P = assms [unfolded fromBuffer_Cons]
  consider (direct) "uint b0 > 0 \<and> uint b0 < OP_PUSHDATA1"
    | (p1) "uint b0 = OP_PUSHDATA1" | (p2) "uint b0 = OP_PUSHDATA2"
    | (p4) "uint b0 = OP_PUSHDATA4"
    | (bare) "\<not> (uint b0 > 0 \<and> uint b0 < OP_PUSHDATA1)" "uint b0 \<noteq> OP_PUSHDATA1"
        "uint b0 \<noteq> OP_PUSHDATA2" "uint b0 \<noteq> OP_PUSHDATA4"
    by blast
  then show ?thesis
  proof cases
    case direct
    with P have "(case read rd (uint b0) br1 of Inl e \<Rightarrow> Inl e
        | Inr (b, br2) \<Rightarrow>
            push_chunk (ChunkObj (Some b) (Some (Num (uint b0))) (Some (Num (uint b0))))
              (fromBuffer rd br2)) = Inr cs"
      by simp
    from after_read [OF this] obtain b br2 cs' where B: "br1 = b @ br2"
      and F: "fromBuffer rd br2 = Inr cs'"
      and C: "cs = ChunkObj (Some b) (Some (Num (uint b0))) (Some (Num (uint b0))) # cs'"
      by blast
    from direct show ?thesis
      by (intro parsed_stepI [OF C F chunk_bytes_direct]) (simp_all add: B chunk_size_def)
  next
    case p1
    with P have "(case readUInt8 br1 of Inl e \<Rightarrow> Inl e
        | Inr (l, br2) \<Rightarrow>
            (case read rd l br2 of Inl e \<Rightarrow> Inl e
             | Inr (b, br3) \<Rightarrow>
                 push_chunk (ChunkObj (Some b) (Some (Num l)) (Some (Num (uint b0))))
                   (fromBuffer rd br3))) = Inr cs"
      by (simp add: op_defs)
    then obtain l0 br2 where L0: "br1 = l0 # br2"
      and P2: "(case read rd (uint l0) br2 of Inl e \<Rightarrow> Inl e
             | Inr (b, br3) \<Rightarrow>
                 push_chunk (ChunkObj (Some b) (Some (Num (uint l0))) (Some (Num (uint b0))))
                   (fromBuffer rd br3)) = Inr cs"
      by (cases br1) auto
    from after_read [OF P2] obtain b br3 cs' where B: "br2 = b @ br3"
      and F: "fromBuffer rd br3 = Inr cs'"
      and C: "cs = ChunkObj (Some b) (Some (Num (uint l0))) (Some (Num (uint b0))) # cs'"
      by blast
    show ?thesis
      by (intro parsed_stepI [OF C F chunk_bytes_pushdata1 [OF p1]])
        (simp_all add: B L0 writeUInt8_read chunk_size_def)
  next
    case p2
    with P have "(case readUInt16LE br1 of Inl e \<Rightarrow> Inl e
        | Inr (l, br2) \<Rightarrow>
            (case read rd l br2 of Inl e \<Rightarrow> Inl e
             | Inr (b, br3) \<Rightarrow>
                 push_chunk (ChunkObj (Some b) (Some (Num l)) (Some (Num (uint b0))))
                   (fromBuffer rd br3))) = Inr cs"
      by (simp add: op_defs)
    then obtain l0 l1 br2 where L0: "br1 = l0 # l1 # br2"
      and P2: "(case read rd (uint l0 + 256 * uint l1) br2 of Inl e \<Rightarrow> Inl e
             | Inr (b, br3) \<Rightarrow>
                 push_chunk (ChunkObj (Some b) (Some (Num (uint l0 + 256 * uint l1)))
                   (Some (Num (uint b0)))) (fromBuffer rd br3)) = Inr cs"
      by (cases br1 rule: readUInt16LE.cases) auto
    from after_read [OF P2] obtain b br3 cs' where B: "br2 = b @ br3"
      and F: "fromBuffer rd br3 = Inr cs'"
      and C: "cs = ChunkObj (Some b) (Some (Num (uint l0 + 256 * uint l1)))
                (Some (Num (uint b0))) # cs'"
      by blast
    show ?thesis
      by (intro parsed_stepI [OF C F chunk_bytes_pushdata2 [OF p2]])
        (simp_all only: writeUInt16LE_read, simp_all add: B L0 chunk_size_def)
  next
    case p4
    with P have "(case readUInt32LE br1 of Inl e \<Rightarrow> Inl e
        | Inr (l, br2) \<Rightarrow>
            (case read rd l br2 of Inl e \<Rightarrow> Inl e
             | Inr (b, br3) \<Rightarrow>
                 push_chunk (ChunkObj (Some b) (Some (Num l)) (Some (Num (uint b0))))
                   (fromBuffer rd br3))) = Inr cs"
      by (simp add: op_defs)
    then obtain l0 l1 l2 l3 br2 where L0: "br1 = l0 # l1 # l2 # l3 # br2"
      and P2: "(case read rd (uint l0 + 256 * uint l1 + 65536 * uint l2 + 16777216 * uint l3) br2
             of Inl e \<Rightarrow> Inl e
             | Inr (b, br3) \<Rightarrow>
                 push_chunk (ChunkObj (Some b)
                   (Some (Num (uint l0 + 256 * uint l1 + 65536 * uint l2 + 16777216 * uint l3)))
                   (Some (Num (uint b0)))) (fromBuffer rd br3)) = Inr cs"
      by (cases br1 rule: readUInt32LE.cases) auto
    from after_read [OF P2] obtain b br3 cs' where B: "br2 = b @ br3"
      and F: "fromBuffer rd br3 = Inr cs'"
      and C: "cs = ChunkObj (Some b)
                (Some (Num (uint l0 + 256 * uint l1 + 65536 * uint l2 + 16777216 * uint l3)))
                (Some (Num (uint b0))) # cs'"
      by blast
    show ?thesis
      by (intro parsed_stepI [OF C F chunk_bytes_pushdata4 [OF p4]])
        (simp_all only: writeUInt32LE_read, simp_all add: B L0 chunk_size_def)
  next
    case bare
    with P obtain cs' where F: "fromBuffer rd br1 = Inr cs'"
      and C: "cs = ChunkObj None None (Some (Num (uint b0))) # cs'"
      by (auto dest: push_chunk_Inr)
    show ?thesis
      by (intro parsed_stepI [OF C F chunk_bytes_bare]) (simp_all add: chunk_size_def)
  qed
qed

lemma fromBuffer_toBuffer: "fromBuffer rd br = Inr cs \<Longrightarrow> toBuffer cs = br"
proof (induction br arbitrary: cs rule: length_induct)
  case (1 br)
  show ?case
  proof (cases br)
    case Nil
    with "1.prems" show ?thesis by (simp add: fromBuffer_Nil toBuffer_Nil)
  next
    case (Cons b0 br1)
    from fromBuffer_step [OF "1.prems" [unfolded Cons]]
    obtain c cs' rest where C: "cs = c # cs'" and F: "fromBuffer rd rest = Inr cs'"
      and B: "b0 # br1 = toBuffer_chunk [] c @ rest"
      and S: "chunk_size c \<le> length (toBuffer_chunk [] c)"
      unfolding parsed_step_def by blast
    from S chunk_size_pos [of c] have "0 < length (toBuffer_chunk [] c)" by linarith
    then have "length rest < length (toBuffer_chunk [] c @ rest)" by simp
    with B Cons have "length rest < length br" by simp
    with "1.IH" F have "toBuffer cs' = rest" by blast
    with B C Cons show ?thesis by (simp add: toBuffer_Cons)
  qed
qed

definition psize :: "script \<Rightarrow> nat" where
  "psize cs = sum_list (map chunk_size cs)"

lemma psize_fromBuffer: "fromBuffer rd br = Inr cs \<Longrightarrow> psize cs \<le> length br"
proof (induction br arbitrary: cs rule: length_induct)
  case (1 br)
  show ?case
  proof (cases br)
    case Nil
    with "1.prems" show ?thesis by (simp add: fromBuffer_Nil psize_def)
  next
    case (Cons b0 br1)
    from fromBuffer_step [OF "1.prems" [unfolded Cons]]
    obtain c cs' rest where C: "cs = c # cs'" and F: "fromBuffer rd rest = Inr cs'"
      and B: "b0 # br1 = toBuffer_chunk [] c @ rest"
      and S: "chunk_size c \<le> length (toBuffer_chunk [] c)"
      unfolding parsed_step_def by blast
    from S chunk_size_pos [of c] have "0 < length (toBuffer_chunk [] c)" by linarith
    then have L: "length rest < length (toBuffer_chunk [] c @ rest)" by simp
    with B Cons have "length rest < length br" by simp
    with "1.IH" F have "psize cs' \<le> length rest" by blast
    moreover have "length br = length (toBuffer_chunk [] c) + length rest"
      using B Cons by simp
    ultimately show ?thesis using S C by (simp add: psize_def)
  qed
qed

section \<open>Classification\<close>

text \<open>
  \<open>PublicKey.isValid\<close> belongs to an external collaborator (section 6.5 of the spec) and
  is a parameter \<open>isValid\<close> of every function that calls it; its argument may be
  \<open>undefined\<close>. A JavaScript conjunction \<open>a && b\<close> is read for its truthiness only:
  a Buffer is truthy, \<open>undefined\<close> is falsy. Each predicate tests the number of chunks
  before it reads a chunk, so no read is out of range.
\<close>

type_synonym pubkey_check = "bytes option \<Rightarrow> bool"

text \<open>
  Modelled from the spec: \<open>Opcode.isSmallIntOp\<close> of the absent \<open>lib/opcode.js\<close>; by
  section 3 the small-integer opcodes are \<open>OP_0\<close> and \<open>OP_1..OP_16\<close>.
\<close>

definition isSmallIntOp :: "number option \<Rightarrow> bool" where
  "isSmallIntOp opc = (js_eq opc OP_0 \<or> (js_ge opc OP_1 \<and> js_le opc OP_16))"

text \<open>\<open>x.buf.length\<close> compared with a constant, where \<open>x.buf\<close> is known to be a Buffer.\<close>

fun buf_length :: "jsobj \<Rightarrow> nat" where
  "buf_length c = (case buf c of None \<Rightarrow> 0 | Some b \<Rightarrow> length b)"

definition isPublicKeyHashOut :: "script \<Rightarrow> bool" where
  "isPublicKeyHashOut chunks =
     (length chunks = 5 \<and>
      js_eq (opcodenum (chunks ! 0)) OP_DUP \<and>
      js_eq (opcodenum (chunks ! 1)) OP_HASH160 \<and>
      buf (chunks ! 2) \<noteq> None \<and>
      js_eq (opcodenum (chunks ! 3)) OP_EQUALVERIFY \<and>
      js_eq (opcodenum (chunks ! 4)) OP_CHECKSIG)"

definition isPublicKeyHashIn :: "pubkey_check \<Rightarrow> script \<Rightarrow> bool" where
  "isPublicKeyHashIn isValid chunks =
     (length chunks = 2 \<and>
      buf (chunks ! 0) \<noteq> None \<and>
      buf_length (chunks ! 0) \<ge> 0x47 \<and>
      buf_length (chunks ! 0) \<le> 0x49 \<and>
      isValid (buf (chunks ! 1)))"

definition isPublicKeyOut :: "pubkey_check \<Rightarrow> script \<Rightarrow> bool" where
  "isPublicKeyOut isValid chunks =
     (length chunks = 2 \<and>
      buf (chunks ! 0) \<noteq> None \<and>
      isValid (buf (chunks ! 0)) \<and>
      js_eq (opcodenum (chunks ! 1)) OP_CHECKSIG)"

definition isPublicKeyIn :: "script \<Rightarrow> bool" where
  "isPublicKeyIn chunks =
     (length chunks = 1 \<and>
      buf (chunks ! 0) \<noteq> None \<and>
      buf_length (chunks ! 0) = 0x47)"

definition isScriptHashOut :: "script \<Rightarrow> bool" where
  "isScriptHashOut chunks =
     (length chunks = 3 \<and>
      js_eq (opcodenum (chunks ! 0)) OP_HASH160 \<and>
      buf (chunks ! 1) \<noteq> None \<and>
      buf_length (chunks ! 1) = 20 \<and>
      js_eq (opcodenum (chunks ! 2)) OP_EQUAL)"

text \<open>\<open>chunks.slice(a, b)\<close> for \<open>0 \<le> a\<close> and \<open>0 \<le> b\<close>.\<close>

definition slice :: "'a list \<Rightarrow> nat \<Rightarrow> nat \<Rightarrow> 'a list" where
  "slice xs a b = take (b - a) (drop a xs)"

definition isMultisigOut :: "script \<Rightarrow> bool" where
  "isMultisigOut chunks =
     (length chunks > 3 \<and>
      isSmallIntOp (opcodenum (chunks ! 0)) \<and>
      list_all (\<lambda>obj. buf obj \<noteq> None) (slice chunks 1 (length chunks - 2)) \<and>
      isSmallIntOp (opcodenum (chunks ! (length chunks - 2))) \<and>
      js_eq (opcodenum (chunks ! (length chunks - 1))) OP_CHECKMULTISIG)"

definition isMultisigIn :: "script \<Rightarrow> bool" where
  "isMultisigIn chunks =
     (length chunks \<ge> 2 \<and>
      js_eq (opcodenum (chunks ! 0)) 0 \<and>
      list_all (\<lambda>obj. buf obj \<noteq> None \<and> buf_length obj = 0x47)
        (slice chunks 1 (length chunks)))"

text \<open>
  \<open>isDataOut\<close> ends with \<open>this.chunks[1].length === this.chunks.len\<close>: the property
  \<open>length\<close> of the chunk object and the property \<open>len\<close> of the array, which an array
  does not have.
\<close>

definition array_len :: "script \<Rightarrow> number option" where
  "array_len chunks = None"

definition isDataOut :: "script \<Rightarrow> bool" where
  "isDataOut chunks =
     (length chunks \<ge> 1 \<and>
      js_eq (opcodenum (chunks ! 0)) OP_RETURN \<and>
      (length chunks = 1 \<or>
       (length chunks = 2 \<and>
        buf (chunks ! 1) \<noteq> None \<and>
        buf_length (chunks ! 1) \<le> 40 \<and>
        \<not> js_strict_neq (length_prop (chunks ! 1)) (array_len chunks))))"

definition isPushOnly :: "script \<Rightarrow> bool" where
  "isPushOnly chunks = list_all (\<lambda>chunk. js_le (opcodenum chunk) OP_16) chunks"

text \<open>
  \<open>Script.types\<close> and \<open>Script.identifiers\<close>. The keys of \<open>Script.identifiers\<close> are listed
  in the order of the assignments that create them (lines 353 to 361), which is the order
  \<open>for (var type in Script.identifiers)\<close> visits them in.
\<close>

datatype ident =
    PUBKEY_OUT | PUBKEY_IN | PUBKEYHASH_OUT | PUBKEYHASH_IN | MULTISIG_OUT | MULTISIG_IN
  | SCRIPTHASH_OUT | SCRIPTHASH_IN | DATA_OUT

definition types_UNKNOWN :: string where
  "types_UNKNOWN = ''Unknown''"

fun types :: "ident \<Rightarrow> string" where
  "types PUBKEY_OUT = ''Pay to public key''"
| "types PUBKEY_IN = ''Spend from public key''"
| "types PUBKEYHASH_OUT = ''Pay to public key hash''"
| "types PUBKEYHASH_IN = ''Spend from public key hash''"
| "types SCRIPTHASH_OUT = ''Pay to script hash''"
| "types SCRIPTHASH_IN = ''Spend from script hash''"
| "types MULTISIG_OUT = ''Pay to multisig''"
| "types MULTISIG_IN = ''Spend from multisig''"
| "types DATA_OUT = ''Data push''"

declare types.simps [simp del]

lemma types_inject [simp]: "(types a = types b) = (a = b)"
  by (cases a; cases b; simp add: types.simps)

lemma types_not_UNKNOWN [simp]: "types a \<noteq> types_UNKNOWN" "types_UNKNOWN \<noteq> types a"
  by (cases a; simp add: types.simps types_UNKNOWN_def)+

definition identifier_keys :: "ident list" where
  "identifier_keys =
     [PUBKEY_OUT, PUBKEY_IN, PUBKEYHASH_OUT, PUBKEYHASH_IN, MULTISIG_OUT, MULTISIG_IN,
      SCRIPTHASH_OUT, SCRIPTHASH_IN, DATA_OUT]"

text \<open>
  \<open>classify\<close> runs the identifiers in that order and returns the type of the first that
  holds. \<open>isScriptHashIn\<close> parses the payload of the last chunk (\<open>new Script(scriptBuf)\<close>
  is \<open>Script.fromBuffer(scriptBuf)\<close>) and classifies the result, so the three functions
  are mutually recursive; a parse error leaves \<open>isScriptHashIn\<close>, and with it \<open>classify\<close>,
  as an exception.
\<close>

function identifiers :: "reader \<Rightarrow> pubkey_check \<Rightarrow> ident \<Rightarrow> script \<Rightarrow> error + bool"
  and classify_from :: "reader \<Rightarrow> pubkey_check \<Rightarrow> ident list \<Rightarrow> script \<Rightarrow> error + string"
  and isScriptHashIn :: "reader \<Rightarrow> pubkey_check \<Rightarrow> script \<Rightarrow> error + bool"
where
  "identifiers rd isValid PUBKEY_OUT chunks = Inr (isPublicKeyOut isValid chunks)"
| "identifiers rd isValid PUBKEY_IN chunks = Inr (isPublicKeyIn chunks)"
| "identifiers rd isValid PUBKEYHASH_OUT chunks = Inr (isPublicKeyHashOut chunks)"
| "identifiers rd isValid PUBKEYHASH_IN chunks = Inr (isPublicKeyHashIn isValid chunks)"
| "identifiers rd isValid MULTISIG_OUT chunks = Inr (isMultisigOut chunks)"
| "identifiers rd isValid MULTISIG_IN chunks = Inr (isMultisigIn chunks)"
| "identifiers rd isValid SCRIPTHASH_OUT chunks = Inr (isScriptHashOut chunks)"
| "identifiers rd isValid SCRIPTHASH_IN chunks = isScriptHashIn rd isValid chunks"
| "identifiers rd isValid DATA_OUT chunks = Inr (isDataOut chunks)"
| "classify_from rd isValid [] chunks = Inr types_UNKNOWN"
| "classify_from rd isValid (type # rest) chunks =
     (case identifiers rd isValid type chunks of
        Inl e \<Rightarrow> Inl e
      | Inr matches \<Rightarrow>
          if matches then Inr (types type) else classify_from rd isValid rest chunks)"
| "isScriptHashIn rd isValid chunks =
     (if length chunks = 0 then Inr False
      else case buf (chunks ! (length chunks - 1)) of
        None \<Rightarrow> Inr False
      | Some scriptBuf \<Rightarrow>
          (case fromBuffer rd scriptBuf of
             Inl e \<Rightarrow> Inl e
           | Inr redeemScript \<Rightarrow>
               (case classify_from rd isValid identifier_keys redeemScript of
                  Inl e \<Rightarrow> Inl e
                | Inr type \<Rightarrow> Inr (type \<noteq> types_UNKNOWN))))"
  by pat_completeness auto

lemma last_buf_psize:
  assumes "chunks \<noteq> []" and "buf (chunks ! (length chunks - 1)) = Some b"
  shows "length b < psize chunks"
proof -
  from assms(1) obtain ys y where ch: "chunks = ys @ [y]"
    by (cases chunks rule: rev_cases) auto
  with assms(2) have "buf y = Some b" by simp
  then have "chunk_size y = 1 + length b" by (simp add: chunk_size_def)
  with ch show ?thesis by (simp add: psize_def)
qed

termination identifiers
  apply (relation "measures
     [\<lambda>x. case x of Inl (_, _, _, chunks) \<Rightarrow> psize chunks
               | Inr (Inl (_, _, _, chunks)) \<Rightarrow> psize chunks
               | Inr (Inr (_, _, chunks)) \<Rightarrow> psize chunks,
      \<lambda>x. case x of Inl _ \<Rightarrow> 1
               | Inr (Inl (_, _, ts, _)) \<Rightarrow> 2 + length ts
               | Inr (Inr _) \<Rightarrow> 0]")
  apply simp_all
  subgoal for rd chunks scriptBuf redeemScript
    using last_buf_psize [of chunks scriptBuf] psize_fromBuffer [of rd scriptBuf redeemScript]
    by auto
  done

declare isScriptHashIn.simps [simp del]

definition classify :: "reader \<Rightarrow> pubkey_check \<Rightarrow> script \<Rightarrow> error + string" where
  "classify rd isValid chunks = classify_from rd isValid identifier_keys chunks"

definition isStandard :: "reader \<Rightarrow> pubkey_check \<Rightarrow> script \<Rightarrow> error + bool" where
  "isStandard rd isValid chunks =
     (case classify rd isValid chunks of Inl e \<Rightarrow> Inl e | Inr type \<Rightarrow> Inr (type \<noteq> types_UNKNOWN))"

text \<open>
  Modelled from the spec: \<open>$.checkState\<close> of the absent \<open>lib/util/preconditions.js\<close>; by
  section 7 a failed check is the error \<open>PreconditionFailed\<close>.
\<close>

definition checkState :: "bool \<Rightarrow> error + unit" where
  "checkState condition = (if condition then Inr () else Inl PreconditionFailed)"

text \<open>
  \<open>getPublicKeyHash\<close> is a method of the script: it returns its result together with
  the receiver as the call leaves it.
\<close>

definition getPublicKeyHash :: "script \<Rightarrow> (error + bytes option) \<times> script" where
  "getPublicKeyHash chunks =
     (case checkState (isPublicKeyHashOut chunks) of
        Inl e \<Rightarrow> (Inl e, chunks)
      | Inr _ \<Rightarrow> (Inr (buf (chunks ! 2)), chunks))"

section \<open>Mutators and builders\<close>

text \<open>
  The values \<open>add\<close> and \<open>prepend\<close> may receive: primitives, functions and the objects of
  the data model (a plain object without the fields of a chunk is a \<open>ChunkObj\<close> with all
  three fields \<open>undefined\<close>). \<open>typeof\<close>, \<open>obj.constructor.name\<close>, \<open>BufferUtil.isBuffer\<close> and
  \<open>instanceof Script\<close> are read off the kind of value; reading \<open>.constructor\<close> of
  \<open>undefined\<close> or \<open>null\<close> throws a TypeError.
\<close>

datatype jsval =
    JString string | JNumber number | JBoolean bool | JUndefined | JNull | JFunction
  | JObject jsobj

fun typeof :: "jsval \<Rightarrow> string" where
  "typeof (JString s) = ''string''"
| "typeof (JNumber n) = ''number''"
| "typeof (JBoolean b) = ''boolean''"
| "typeof JUndefined = ''undefined''"
| "typeof JNull = ''object''"
| "typeof JFunction = ''function''"
| "typeof (JObject x) = ''object''"

fun constructor_name :: "jsval \<Rightarrow> error + string" where
  "constructor_name (JString s) = Inr ''String''"
| "constructor_name (JNumber n) = Inr ''Number''"
| "constructor_name (JBoolean b) = Inr ''Boolean''"
| "constructor_name JUndefined = Inl TypeError"
| "constructor_name JNull = Inl TypeError"
| "constructor_name JFunction = Inr ''Function''"
| "constructor_name (JObject (ChunkObj b l opc)) = Inr ''Object''"
| "constructor_name (JObject (ScriptObj chunks)) = Inr ''Script''"
| "constructor_name (JObject (BufferObj bs)) = Inr ''Buffer''"
| "constructor_name (JObject (OpcodeObj n)) = Inr ''Opcode''"

fun isBuffer :: "jsval \<Rightarrow> bool" where
  "isBuffer (JObject (BufferObj bs)) = True"
| "isBuffer _ = False"

fun instanceof_Script :: "jsval \<Rightarrow> bool" where
  "instanceof_Script (JObject (ScriptObj chunks)) = True"
| "instanceof_Script _ = False"

text \<open>
  The opcode registry of the absent \<open>lib/opcode.js\<close> is a parameter: \<open>Opcode_map\<close> takes
  a name to its number and \<open>Opcode_reverseMap\<close> a number to its canonical name
  (section 2 of the spec: a bidirectional map between names and numeric values).
\<close>

record registry =
  Opcode_map :: "string \<Rightarrow> int option"
  Opcode_reverseMap :: "int \<Rightarrow> string option"

text \<open>
  The branch of the \<open>if\<close> chain of \<open>_addByType\<close> that a value takes, in the order of
  the source.
\<close>

datatype branch = AddOpcode | AddBuffer | InsertAtPosition | Concat | InvalidChunk

definition addByType_branch :: "jsval \<Rightarrow> error + branch" where
  "addByType_branch obj =
     (if typeof obj = ''string'' then Inr AddOpcode
      else if typeof obj = ''number'' then Inr AddOpcode
      else case constructor_name obj of
        Inl e \<Rightarrow> Inl e
      | Inr name \<Rightarrow>
          if name = ''Opcode'' then Inr AddOpcode
          else if isBuffer obj then Inr AddBuffer
          else if typeof obj = ''object'' then Inr InsertAtPosition
          else if instanceof_Script obj then Inr Concat
          else Inr InvalidChunk)"

definition insertAtPosition :: "script \<Rightarrow> jsobj \<Rightarrow> bool \<Rightarrow> script" where
  "insertAtPosition chunks op prepend = (if prepend then op # chunks else chunks @ [op])"

text \<open>
  \<open>_addOpcode\<close>: a number is taken as it is, an \<open>Opcode\<close> gives its \<open>num\<close>, and a name
  is looked up in the registry (\<open>Opcode(opcode).toNumber()\<close>, \<open>undefined\<close> for a name the
  registry does not have). \<open>_addByType\<close> passes no other kind of value.
\<close>

fun toNumber :: "registry \<Rightarrow> jsval \<Rightarrow> number option" where
  "toNumber reg (JNumber n) = Some n"
| "toNumber reg (JObject (OpcodeObj n)) = n"
| "toNumber reg (JString s) = map_option Num (Opcode_map reg s)"
| "toNumber reg _ = None"

definition addOpcode :: "registry \<Rightarrow> script \<Rightarrow> jsval \<Rightarrow> bool \<Rightarrow> script" where
  "addOpcode reg chunks opcode prepend =
     insertAtPosition chunks (ChunkObj None None (toNumber reg opcode)) prepend"

definition addBuffer :: "script \<Rightarrow> bytes \<Rightarrow> bool \<Rightarrow> error + script" where
  "addBuffer chunks b prepend =
     (let l = int (length b) in
      if l = 0 then Inr chunks
      else if l > 0 \<and> l < OP_PUSHDATA1 then
        Inr (insertAtPosition chunks (ChunkObj (Some b) (Some (Num l)) (Some (Num l))) prepend)
      else if l < 2 ^ 8 then
        Inr (insertAtPosition chunks
               (ChunkObj (Some b) (Some (Num l)) (Some (Num OP_PUSHDATA1))) prepend)
      else if l < 2 ^ 16 then
        Inr (insertAtPosition chunks
               (ChunkObj (Some b) (Some (Num l)) (Some (Num OP_PUSHDATA2))) prepend)
      else if l < 2 ^ 32 then
        Inr (insertAtPosition chunks
               (ChunkObj (Some b) (Some (Num l)) (Some (Num OP_PUSHDATA4))) prepend)
      else Inl PayloadTooLarge)"

text \<open>
  \<open>_addByType\<close>. In each branch the value has the kind the branch tested for, so the
  last case of the three inner \<open>case\<close> expressions is never taken.
\<close>

definition addByType :: "registry \<Rightarrow> script \<Rightarrow> jsval \<Rightarrow> bool \<Rightarrow> error + script" where
  "addByType reg chunks obj prepend =
     (case addByType_branch obj of
        Inl e \<Rightarrow> Inl e
      | Inr AddOpcode \<Rightarrow> Inr (addOpcode reg chunks obj prepend)
      | Inr AddBuffer \<Rightarrow>
          (case obj of JObject (BufferObj b) \<Rightarrow> addBuffer chunks b prepend
           | _ \<Rightarrow> Inl TypeError)
      | Inr InsertAtPosition \<Rightarrow>
          (case obj of JObject x \<Rightarrow> Inr (insertAtPosition chunks x prepend)
           | _ \<Rightarrow> Inl TypeError)
      | Inr Concat \<Rightarrow>
          (case obj of JObject (ScriptObj other) \<Rightarrow> Inr (chunks @ other)
           | _ \<Rightarrow> Inl TypeError)
      | Inr InvalidChunk \<Rightarrow> Inl InvalidArgument)"

definition add :: "registry \<Rightarrow> script \<Rightarrow> jsval \<Rightarrow> error + script" where
  "add reg chunks obj = addByType reg chunks obj False"

definition prepend :: "registry \<Rightarrow> script \<Rightarrow> jsval \<Rightarrow> error + script" where
  "prepend reg chunks obj = addByType reg chunks obj True"

definition removeCodeseparators :: "script \<Rightarrow> script" where
  "removeCodeseparators chunks =
     filter (\<lambda>chunk. \<not> js_eq (opcodenum chunk) OP_CODESEPARATOR) chunks"

subsection \<open>Comparison\<close>

text \<open>
  Modelled from the spec: \<open>BufferUtil.isBuffer\<close> and \<open>BufferUtil.equals\<close> of the absent
  \<open>lib/util/buffer.js\<close>, of which the spec has the names only: the test for a Buffer and
  the comparison of two Buffers byte by byte. \<open>x instanceof Opcode\<close> is the test for an
  \<open>Opcode\<close> object.
\<close>

fun obj_isBuffer :: "jsobj \<Rightarrow> bool" where
  "obj_isBuffer (BufferObj bs) = True"
| "obj_isBuffer _ = False"

fun obj_isOpcode :: "jsobj \<Rightarrow> bool" where
  "obj_isOpcode (OpcodeObj n) = True"
| "obj_isOpcode _ = False"

fun BufferUtil_equals :: "jsobj \<Rightarrow> jsobj \<Rightarrow> bool" where
  "BufferUtil_equals (BufferObj a) (BufferObj b) = (a = b)"
| "BufferUtil_equals _ _ = False"

text \<open>
  \<open>Script.prototype.equals\<close>. The argument is a script (the \<open>checkState\<close> on
  \<open>script instanceof Script\<close> holds). The loop runs over both chunk lists at once; they
  have the same length when it starts.
\<close>

fun equals_loop :: "script \<Rightarrow> script \<Rightarrow> bool" where
  "equals_loop (x # xs) (y # ys) =
     (if obj_isBuffer x \<and> \<not> obj_isBuffer y then False
      else if obj_isOpcode x \<and> \<not> obj_isOpcode y then False
      else if obj_isBuffer x \<and> \<not> BufferUtil_equals x y then False
      else if js_strict_neq (num x) (num y) then False
      else equals_loop xs ys)"
| "equals_loop _ _ = True"

definition equals :: "script \<Rightarrow> script \<Rightarrow> bool" where
  "equals chunks other =
     (if length chunks \<noteq> length other then False else equals_loop chunks other)"

subsection \<open>Builders\<close>

text \<open>
  Modelled from the spec: \<open>Opcode.smallInt\<close> of the absent \<open>lib/opcode.js\<close>; by section 3
  \<open>smallInt(n)\<close> for \<open>n\<close> in \<open>[0,16]\<close> is the opcode \<open>OP_0\<close> or \<open>OP_1..OP_16\<close>; any
  other argument is refused.
\<close>

definition smallInt :: "int \<Rightarrow> error + jsobj" where
  "smallInt n =
     (if 0 \<le> n \<and> n \<le> 16
      then Inr (OpcodeObj (Some (Num (if n = 0 then OP_0 else OP_1 + n - 1))))
      else Inl InvalidArgument)"

text \<open>
  \<open>new Buffer(data)\<close> for a string is its UTF-8 encoding; a string is modelled by the
  bytes of its UTF-8 encoding, one \<open>char\<close> each.
\<close>

definition Buffer_of_string :: "string \<Rightarrow> bytes" where
  "Buffer_of_string s = map of_char s"

definition buildDataOut :: "registry \<Rightarrow> jsval \<Rightarrow> error + script" where
  "buildDataOut reg data =
     (let data' = (case data of JString s \<Rightarrow> JObject (BufferObj (Buffer_of_string s))
                   | _ \<Rightarrow> data)
      in case add reg [] (JNumber (Num OP_RETURN)) of
           Inl e \<Rightarrow> Inl e
         | Inr s \<Rightarrow> add reg s data')"

text \<open>\<open>buf.toString('hex')\<close>: two lower-case hexadecimal digits for each byte.\<close>

definition hexdigit :: "nat \<Rightarrow> char" where
  "hexdigit n = ''0123456789abcdef'' ! n"

definition hex_byte :: "byte \<Rightarrow> string" where
  "hex_byte b = [hexdigit (unat b div 16), hexdigit (unat b mod 16)]"

definition toString_hex :: "bytes \<Rightarrow> string" where
  "toString_hex bs = concat (map hex_byte bs)"

text \<open>
  Modelled from the spec: \<open>pubkey.toString('hex')\<close> of the absent \<open>lib/publickey.js\<close>; by
  section 4.7 the keys are sorted by their hex-serialized bytes, so it is the hexadecimal
  form of \<open>pubkey.toBuffer()\<close>. A public key is a value of an external collaborator, of
  any type \<open>'pk\<close>, and its serialization \<open>toBuffer\<close> is a parameter.
\<close>

definition PublicKey_toString :: "('pk \<Rightarrow> bytes) \<Rightarrow> 'pk \<Rightarrow> string" where
  "PublicKey_toString toBuffer_pk pubkey = toString_hex (toBuffer_pk pubkey)"

text \<open>
  \<open>Script.buildMultisigOut\<close>. The keys are \<open>PublicKey\<close> objects already (\<open>PublicKey(pubkey)\<close>
  returns such a key as it is). \<open>_.sortBy\<close> is a stable sort, ascending in the criterion;
  strings compare lexicographically by character code.
\<close>

fun add_all :: "registry \<Rightarrow> script \<Rightarrow> bytes list \<Rightarrow> error + script" where
  "add_all reg s [] = Inr s"
| "add_all reg s (b # bs) =
     (case add reg s (JObject (BufferObj b)) of
        Inl e \<Rightarrow> Inl e
      | Inr s' \<Rightarrow> add_all reg s' bs)"

definition buildMultisigOut ::
  "registry \<Rightarrow> ('pk \<Rightarrow> bytes) \<Rightarrow> 'pk list \<Rightarrow> int \<Rightarrow> bool \<Rightarrow> error + script" where
  "buildMultisigOut reg toBuffer_pk pubkeys m noSorting =
     (case smallInt m of
        Inl e \<Rightarrow> Inl e
      | Inr op_m \<Rightarrow>
     (case add reg [] (JObject op_m) of
        Inl e \<Rightarrow> Inl e
      | Inr s1 \<Rightarrow>
     (let sorted =
            (if \<not> noSorting
             then sort_key (\<lambda>pubkey. PublicKey_toString toBuffer_pk pubkey) pubkeys
             else pubkeys)
      in case add_all reg s1 (map toBuffer_pk sorted) of
        Inl e \<Rightarrow> Inl e
      | Inr s2 \<Rightarrow>
     (case smallInt (int (length pubkeys)) of
        Inl e \<Rightarrow> Inl e
      | Inr op_n \<Rightarrow>
     (case add reg s2 (JObject op_n) of
        Inl e \<Rightarrow> Inl e
      | Inr s3 \<Rightarrow> add reg s3 (JNumber (Num OP_CHECKMULTISIG)))))))"

section \<open>Text form\<close>

subsection \<open>Numbers and strings of the language\<close>

text \<open>
  \<open>n.toString(16)\<close> and the conversion of a number to a decimal string, on integers
  and \<open>NaN\<close>; \<open>String(undefined)\<close> is \<open>undefined\<close>. The language prints an integer of
  \<open>10^21\<close> or more with an exponent and rounds integers beyond \<open>2^53\<close>; the model is that
  of the integers below these bounds, which the lengths of Buffers are.
\<close>

fun digits :: "nat \<Rightarrow> nat \<Rightarrow> string" where
  "digits base n =
     (if base < 2 \<or> n < base then [hexdigit n]
      else digits base (n div base) @ [hexdigit (n mod base)])"

declare digits.simps [simp del]

fun number_toString :: "nat \<Rightarrow> number \<Rightarrow> string" where
  "number_toString base NaN = ''NaN''"
| "number_toString base (Num n) =
     (if n < 0 then CHR ''-'' # digits base (nat (- n)) else digits base (nat n))"

fun String :: "number option \<Rightarrow> string" where
  "String None = ''undefined''"
| "String (Some n) = number_toString 10 n"

text \<open>
  \<open>parseInt(s)\<close> with no radix: leading white space is skipped, a sign is read, the
  prefix \<open>0x\<close> or \<open>0X\<close> selects base 16, and the longest run of digits of the base is
  the value; with no digit the result is \<open>NaN\<close>.
\<close>

definition is_space :: "char \<Rightarrow> bool" where
  "is_space c = (c \<in> set [CHR '' '', CHR 0x09, CHR 0x0A, CHR 0x0B, CHR 0x0C, CHR 0x0D])"

definition digit_value :: "char \<Rightarrow> nat option" where
  "digit_value c =
     (let k = (of_char c :: nat) in
      if 48 \<le> k \<and> k \<le> 57 then Some (k - 48)
      else if 97 \<le> k \<and> k \<le> 102 then Some (k - 87)
      else if 65 \<le> k \<and> k \<le> 70 then Some (k - 55)
      else None)"

definition is_digit :: "nat \<Rightarrow> char \<Rightarrow> bool" where
  "is_digit base c = (case digit_value c of None \<Rightarrow> False | Some d \<Rightarrow> d < base)"

definition digits_value :: "nat \<Rightarrow> string \<Rightarrow> nat" where
  "digits_value base ds = foldl (\<lambda>acc c. acc * base + (case digit_value c of None \<Rightarrow> 0 | Some d \<Rightarrow> d)) 0 ds"

definition parseInt :: "string \<Rightarrow> number" where
  "parseInt s =
     (let s1 = dropWhile is_space s;
          negative = (take 1 s1 = ''-'');
          s2 = (if take 1 s1 = ''-'' \<or> take 1 s1 = ''+'' then drop 1 s1 else s1);
          hex = (take 2 s2 = ''0x'' \<or> take 2 s2 = ''0X'');
          base = (if hex then 16 else 10);
          s3 = (if hex then drop 2 s2 else s2);
          ds = takeWhile (is_digit base) s3
      in if ds = [] then NaN
         else Num (if negative then - int (digits_value base ds) else int (digits_value base ds)))"

text \<open>\<open>str.split(' ')\<close>: the pieces between the spaces, one more than there are spaces.\<close>

fun split_space :: "string \<Rightarrow> string list" where
  "split_space [] = [[]]"
| "split_space (c # cs) =
     (if c = CHR '' '' then [] # split_space cs
      else (case split_space cs of [] \<Rightarrow> [[c]] | t # ts \<Rightarrow> (c # t) # ts))"

text \<open>
  \<open>new Buffer(s, 'hex')\<close>: the bytes of a string of hexadecimal digits; a string of odd
  length or with another character is refused with a TypeError.
\<close>

fun Buffer_of_hex :: "string \<Rightarrow> error + bytes" where
  "Buffer_of_hex [] = Inr []"
| "Buffer_of_hex [c] = Inl TypeError"
| "Buffer_of_hex (c # d # cs) =
     (case (digit_value c, digit_value d) of
        (Some h, Some l) \<Rightarrow>
          (case Buffer_of_hex cs of Inl e \<Rightarrow> Inl e
           | Inr bs \<Rightarrow> Inr (of_nat (16 * h + l) # bs))
      | _ \<Rightarrow> Inl TypeError)"

text \<open>
  Modelled from the spec: \<open>jsUtil.isHexa\<close> of the absent \<open>lib/util/js.js\<close>; by section
  4.4 it holds when the entire input is hexadecimal, read here as a non-empty string of
  hexadecimal digits.
\<close>

definition isHexa :: "string \<Rightarrow> bool" where
  "isHexa s = (s \<noteq> [] \<and> list_all (is_digit 16) s)"

subsection \<open>Rendering and parsing\<close>

text \<open>
  Modelled from the spec: \<open>Opcode(n).toString()\<close> of the absent \<open>lib/opcode.js\<close> is the
  canonical name of the opcode (section 4.4); the spec gives an opcode without a name no
  text, and here \<open>toString\<close> refuses it. \<open>Opcode.reverseMap[n]\<close> is \<open>undefined\<close> for a
  number without a name, for \<open>NaN\<close> and for \<open>undefined\<close>.
\<close>

fun reverseMap :: "registry \<Rightarrow> number option \<Rightarrow> string option" where
  "reverseMap reg (Some (Num n)) = Opcode_reverseMap reg n"
| "reverseMap reg _ = None"

definition Opcode_toString :: "registry \<Rightarrow> number option \<Rightarrow> error + string" where
  "Opcode_toString reg opc =
     (case reverseMap reg opc of None \<Rightarrow> Inl InvalidArgument | Some name \<Rightarrow> Inr name)"

text \<open>
  \<open>Script.prototype.toString\<close>: the text that one chunk appends to \<open>str\<close>, and the loop;
  \<open>str.substr(1)\<close> drops the leading space. \<open>opcodenum.toString(16)\<close> of an
  \<open>undefined\<close> opcode throws a TypeError.
\<close>

definition toString_chunk :: "registry \<Rightarrow> jsobj \<Rightarrow> error + string" where
  "toString_chunk reg chunk =
     (let opc = opcodenum chunk in
      case buf chunk of
        None \<Rightarrow>
          (if reverseMap reg opc \<noteq> None then
             (case Opcode_toString reg opc of Inl e \<Rightarrow> Inl e | Inr name \<Rightarrow> Inr ('' '' @ name))
           else
             (case opc of None \<Rightarrow> Inl TypeError
              | Some n \<Rightarrow> Inr ('' '' @ ''0x'' @ number_toString 16 n)))
      | Some b \<Rightarrow>
          (case (if js_eq opc OP_PUSHDATA1 \<or> js_eq opc OP_PUSHDATA2 \<or> js_eq opc OP_PUSHDATA4
                 then (case Opcode_toString reg opc of Inl e \<Rightarrow> Inl e
                       | Inr name \<Rightarrow> Inr ('' '' @ name))
                 else Inr []) of
             Inl e \<Rightarrow> Inl e
           | Inr str \<Rightarrow>
               Inr (str @ '' '' @ String (len chunk) @ '' '' @ ''0x'' @ toString_hex b)))"

fun toString_loop :: "registry \<Rightarrow> string \<Rightarrow> script \<Rightarrow> error + string" where
  "toString_loop reg str [] = Inr str"
| "toString_loop reg str (chunk # chunks) =
     (case toString_chunk reg chunk of
        Inl e \<Rightarrow> Inl e
      | Inr t \<Rightarrow> toString_loop reg (str @ t) chunks)"

definition toString :: "registry \<Rightarrow> script \<Rightarrow> error + string" where
  "toString reg chunks =
     (case toString_loop reg [] chunks of Inl e \<Rightarrow> Inl e | Inr str \<Rightarrow> Inr (drop 1 str))"

text \<open>
  \<open>Script.fromString\<close>. The loop over the tokens is the recursion on the tokens from
  index \<open>i\<close> on. \<open>Opcode(token).toNumber()\<close> is the registry's number for the token,
  \<open>undefined\<close> when it has none. Reading \<open>tokens[i + 1]\<close> or \<open>tokens[i + 2]\<close> past the end
  gives \<open>undefined\<close>, whose \<open>slice\<close> throws a TypeError.
\<close>

fun fromString_loop :: "registry \<Rightarrow> string list \<Rightarrow> error + script" where
  "fromString_loop reg [] = Inr []"
| "fromString_loop reg (token # tokens) =
     (case Opcode_map reg token of
        None \<Rightarrow>
          (let opc = parseInt token in
           if js_gt (Some opc) 0 \<and> js_lt (Some opc) OP_PUSHDATA1 then
             (case tokens of
                [] \<Rightarrow> Inl TypeError
              | t1 # tokens' \<Rightarrow>
                  (case Buffer_of_hex (drop 2 t1) of
                     Inl e \<Rightarrow> Inl e
                   | Inr b \<Rightarrow>
                       push_chunk (ChunkObj (Some b) (Some opc) (Some opc))
                         (fromString_loop reg tokens')))
           else Inl InvalidScript)
      | Some opc \<Rightarrow>
          if opc = OP_PUSHDATA1 \<or> opc = OP_PUSHDATA2 \<or> opc = OP_PUSHDATA4 then
            (case tokens of
               t1 # t2 # tokens' \<Rightarrow>
                 if take 2 t2 \<noteq> ''0x'' then Inl InvalidScript
                 else
                   (case Buffer_of_hex (drop 2 t2) of
                      Inl e \<Rightarrow> Inl e
                    | Inr b \<Rightarrow>
                        push_chunk (ChunkObj (Some b) (Some (parseInt t1)) (Some (Num opc)))
                          (fromString_loop reg tokens'))
             | _ \<Rightarrow> Inl TypeError)
          else push_chunk (ChunkObj None None (Some (Num opc))) (fromString_loop reg tokens))"

definition fromString :: "reader \<Rightarrow> registry \<Rightarrow> string \<Rightarrow> error + script" where
  "fromString rd reg str =
     (if isHexa str then
        (case Buffer_of_hex str of Inl e \<Rightarrow> Inl e | Inr b \<Rightarrow> fromBuffer rd b)
      else fromString_loop reg (split_space str))"

section \<open>The claims\<close>

subsection \<open>Sample parameters and the scenarios of the spec\<close>

text \<open>
  A sample of the parameter \<open>PublicKey.isValid\<close> for closed statements: the length test
  of section 6.5 of the spec (a valid key has 33 or 65 bytes).
\<close>

fun isValid_by_length :: pubkey_check where
  "isValid_by_length None = False"
| "isValid_by_length (Some b) = (length b = 33 \<or> length b = 65)"

text \<open>
  A registry with the opcodes that section 3 of the spec names, for closed statements.
\<close>

definition spec_opcodes :: "(string \<times> int) list" where
  "spec_opcodes =
     [(''OP_0'', 0), (''OP_PUSHDATA1'', 76), (''OP_PUSHDATA2'', 77), (''OP_PUSHDATA4'', 78),
      (''OP_1'', 81), (''OP_2'', 82), (''OP_3'', 83), (''OP_4'', 84), (''OP_5'', 85),
      (''OP_6'', 86), (''OP_7'', 87), (''OP_8'', 88), (''OP_9'', 89), (''OP_10'', 90),
      (''OP_11'', 91), (''OP_12'', 92), (''OP_13'', 93), (''OP_14'', 94), (''OP_15'', 95),
      (''OP_16'', 96), (''OP_RETURN'', 106), (''OP_DUP'', 118), (''OP_EQUAL'', 135),
      (''OP_EQUALVERIFY'', 136), (''OP_HASH160'', 169), (''OP_CODESEPARATOR'', 171),
      (''OP_CHECKSIG'', 172), (''OP_CHECKMULTISIG'', 174)]"

definition spec_registry :: registry where
  "spec_registry = \<lparr>
     Opcode_map = map_of spec_opcodes,
     Opcode_reverseMap = map_of (map (\<lambda>(name, n). (n, name)) spec_opcodes) \<rparr>"

text \<open>The scripts of the scenarios E1 and E3 of the spec.\<close>

definition p2pkh_zero :: script where
  "p2pkh_zero =
     [ChunkObj None None (Some (Num OP_DUP)), ChunkObj None None (Some (Num OP_HASH160)),
      ChunkObj (Some (replicate 20 0)) (Some (Num 20)) (Some (Num 20)),
      ChunkObj None None (Some (Num OP_EQUALVERIFY)),
      ChunkObj None None (Some (Num OP_CHECKSIG))]"

definition hello_script :: script where
  "hello_script =
     [ChunkObj None None (Some (Num OP_RETURN)),
      ChunkObj (Some [0x48, 0x65, 0x6c, 0x6c, 0x6f]) (Some (Num 5)) (Some (Num 5))]"

text \<open>
  E1: \<open>76a914\<close>, 20 zero bytes, \<open>88ac\<close> parse to 5 chunks, classified \<open>PUBKEYHASH_OUT\<close>,
  with the 20 zero bytes as public key hash.
\<close>

lemma scenario_E1:
  "fromBuffer rd ([0x76, 0xa9, 0x14] @ replicate 20 0 @ [0x88, 0xac]) = Inr p2pkh_zero"
  "classify rd isValid_by_length p2pkh_zero = Inr (types PUBKEYHASH_OUT)"
  "fst (getPublicKeyHash p2pkh_zero) = Inr (Some (replicate 20 0))"
  by code_simp+

text \<open>E2: \<open>a914\<close>, 20 zero bytes, \<open>87\<close> are classified \<open>SCRIPTHASH_OUT\<close>.\<close>

lemma scenario_E2:
  "fromBuffer rd ([0xa9, 0x14] @ replicate 20 0 @ [0x87]) =
     Inr [ChunkObj None None (Some (Num OP_HASH160)),
          ChunkObj (Some (replicate 20 0)) (Some (Num 20)) (Some (Num 20)),
          ChunkObj None None (Some (Num OP_EQUAL))]"
  "classify rd isValid_by_length
     [ChunkObj None None (Some (Num OP_HASH160)),
      ChunkObj (Some (replicate 20 0)) (Some (Num 20)) (Some (Num 20)),
      ChunkObj None None (Some (Num OP_EQUAL))] = Inr (types SCRIPTHASH_OUT)"
  by code_simp+

text \<open>
  E3: \<open>6a0548656c6c6f\<close> is \<open>OP_RETURN\<close> and a push of \<open>Hello\<close>, rendered as
  \<open>OP_RETURN 5 0x48656c6c6f\<close>. Before \<open>isDataOut\<close>, \<open>classify\<close> runs \<open>isScriptHashIn\<close>,
  which parses \<open>Hello\<close> as a script: a push of 72 bytes of which 4 are there. With the
  lenient reader the result is \<open>DATA_OUT\<close>, as the scenario says; with the strict reader
  \<open>classify\<close> fails.
\<close>

lemma scenario_E3:
  "fromBuffer rd [0x6a, 0x05, 0x48, 0x65, 0x6c, 0x6c, 0x6f] = Inr hello_script"
  "classify Lenient isValid_by_length hello_script = Inr (types DATA_OUT)"
  "classify Strict isValid_by_length hello_script = Inl Truncated"
  "toString spec_registry hello_script = Inr ''OP_RETURN 5 0x48656c6c6f''"
  by code_simp+

text \<open>E6: the input \<open>4c\<close>, an \<open>OP_PUSHDATA1\<close> without its length, is truncated.\<close>

lemma scenario_E6: "fromBuffer rd [0x4c] = Inl Truncated"
  by code_simp

subsection \<open>Parser and serializer, comparison\<close>

lemma fromBuffer_nonminimal:
  "fromBuffer rd [0x4c, 0x01, 0xaa] = Inr [ChunkObj (Some [0xaa]) (Some (Num 1)) (Some (Num 76))]"
  by (simp add: fromBuffer_Cons fromBuffer_Nil read_def push_chunk_def op_defs)

lemma fromBuffer_short_payload:
  "fromBuffer Lenient [0x4c, 0x05, 0xaa]
     = Inr [ChunkObj (Some [0xaa]) (Some (Num 5)) (Some (Num 76))]"
  by (simp add: fromBuffer_Cons fromBuffer_Nil read_def push_chunk_def op_defs)

text \<open>
  Claim C1. Every byte sequence that \<open>Script.fromBuffer\<close> parses without error is
  returned byte for byte by \<open>toBuffer\<close> on the parsed chunks, for both readers. A push
  that is not minimally encoded keeps its opcode and its declared length field.
\<close>

theorem C1_parse_serialize_roundtrip:
  "fromBuffer rd b = Inr chunks \<Longrightarrow> toBuffer chunks = b"
  by (rule fromBuffer_toBuffer)

text \<open>
  The witness is an \<open>OP_PUSHDATA1\<close> push of one byte, which the minimal encoding would
  write as \<open>01 aa\<close>; and, for the lenient reader, a push that declares five bytes where
  one follows, whose declared length is written back.
\<close>

theorem C1_parse_serialize_roundtrip_witness:
  "fromBuffer Strict [0x4c, 0x01, 0xaa]
     = Inr [ChunkObj (Some [0xaa]) (Some (Num 1)) (Some (Num 76))]
   \<and> toBuffer [ChunkObj (Some [0xaa]) (Some (Num 1)) (Some (Num 76))] = [0x4c, 0x01, 0xaa]
   \<and> fromBuffer Lenient [0x4c, 0x05, 0xaa]
     = Inr [ChunkObj (Some [0xaa]) (Some (Num 5)) (Some (Num 76))]
   \<and> toBuffer [ChunkObj (Some [0xaa]) (Some (Num 5)) (Some (Num 76))] = [0x4c, 0x05, 0xaa]"
  using C1_parse_serialize_roundtrip [OF fromBuffer_nonminimal [of Strict]]
    C1_parse_serialize_roundtrip [OF fromBuffer_short_payload]
    fromBuffer_nonminimal [of Strict] fromBuffer_short_payload
  by simp

lemma toBuffer_bare: "toBuffer [ChunkObj None None (Some (Num n))] = [word_of_int n]"
  by (simp add: toBuffer_def toBuffer_chunk_def writeUInt8_def)

text \<open>
  Claim C2 says that \<open>equals\<close> holds exactly for scripts with the same chunks, and
  exactly for scripts with the same serialization. The loop of \<open>equals\<close> tests whether a
  chunk is a Buffer or an \<open>Opcode\<close> and compares the property \<open>num\<close>; a chunk is an object
  \<open>{buf, len, opcodenum}\<close>, for which both tests fail and \<open>num\<close> is \<open>undefined\<close>. The
  scripts parsed from the bytes \<open>76\<close> (\<open>OP_DUP\<close>) and \<open>a9\<close> (\<open>OP_HASH160\<close>) are equal for
  \<open>equals\<close>, with different opcodes and different serializations.
\<close>

theorem C2_equals_compares_only_lengths:
  "fromBuffer rd [0x76] = Inr [ChunkObj None None (Some (Num OP_DUP))]
   \<and> fromBuffer rd [0xa9] = Inr [ChunkObj None None (Some (Num OP_HASH160))]
   \<and> equals [ChunkObj None None (Some (Num OP_DUP))] [ChunkObj None None (Some (Num OP_HASH160))]
   \<and> opcodenum (ChunkObj None None (Some (Num OP_DUP)))
       \<noteq> opcodenum (ChunkObj None None (Some (Num OP_HASH160)))
   \<and> toBuffer [ChunkObj None None (Some (Num OP_DUP))] = [0x76]
   \<and> toBuffer [ChunkObj None None (Some (Num OP_HASH160))] = [0xa9]"
  by (simp add: fromBuffer_Cons fromBuffer_Nil push_chunk_def op_defs equals_def toBuffer_bare)

text \<open>
  In general \<open>equals\<close> compares the numbers of chunks only, whenever all chunks are chunk
  objects, as they are in every parsed script.
\<close>

fun is_chunk :: "jsobj \<Rightarrow> bool" where
  "is_chunk (ChunkObj b l opc) = True"
| "is_chunk _ = False"

lemma equals_loop_chunks:
  "list_all is_chunk a \<Longrightarrow> list_all is_chunk b \<Longrightarrow> equals_loop a b"
proof (induction a b rule: equals_loop.induct)
  case (1 x xs y ys)
  then show ?case by (cases x; cases y) simp_all
qed simp_all

lemma equals_chunk_objects:
  "list_all is_chunk a \<Longrightarrow> list_all is_chunk b \<Longrightarrow> equals a b = (length a = length b)"
  by (simp add: equals_def equals_loop_chunks)

subsection \<open>Classification as a pay-to-public-key-hash output\<close>

lemma isPublicKeyHashOut_lengths:
  "isPublicKeyHashOut s \<Longrightarrow> \<not> isPublicKeyOut v s \<and> \<not> isPublicKeyIn s"
  by (simp add: isPublicKeyHashOut_def isPublicKeyOut_def isPublicKeyIn_def)

lemma classify_PUBKEYHASH_OUT_iff:
  "(classify rd v s = Inr (types PUBKEYHASH_OUT)) = isPublicKeyHashOut s"
proof (cases "isPublicKeyHashOut s")
  case True
  with isPublicKeyHashOut_lengths [OF True, of v] show ?thesis
    by (simp add: classify_def identifier_keys_def)
next
  case False
  then show ?thesis
    by (auto simp: classify_def identifier_keys_def split: sum.splits)
qed

lemma p2pkh_short_parse:
  "fromBuffer rd [0x76, 0xa9, 0x01, 0x00, 0x88, 0xac] =
     Inr [ChunkObj None None (Some (Num OP_DUP)), ChunkObj None None (Some (Num OP_HASH160)),
          ChunkObj (Some [0x00]) (Some (Num 1)) (Some (Num 1)),
          ChunkObj None None (Some (Num OP_EQUALVERIFY)),
          ChunkObj None None (Some (Num OP_CHECKSIG))]"
  by (simp add: fromBuffer_Cons fromBuffer_Nil read_def push_chunk_def op_defs)

text \<open>
  Claim C3 says that only a script whose third chunk pushes exactly 20 bytes is
  classified \<open>PUBKEYHASH_OUT\<close>. \<open>isPublicKeyHashOut\<close> tests that the third chunk has a
  payload and not how long it is (\<open>isScriptHashOut\<close> tests \<open>buf.length === 20\<close>). The
  bytes \<open>76 a9 01 00 88 ac\<close> parse to \<open>OP_DUP OP_HASH160 push(1 byte) OP_EQUALVERIFY
  OP_CHECKSIG\<close>, and \<open>classify\<close> returns \<open>PUBKEYHASH_OUT\<close> for them, whatever
  \<open>PublicKey.isValid\<close> is.
\<close>

theorem C3_pubkeyhash_out_any_payload_length:
  "fromBuffer rd [0x76, 0xa9, 0x01, 0x00, 0x88, 0xac] =
     Inr [ChunkObj None None (Some (Num OP_DUP)), ChunkObj None None (Some (Num OP_HASH160)),
          ChunkObj (Some [0x00]) (Some (Num 1)) (Some (Num 1)),
          ChunkObj None None (Some (Num OP_EQUALVERIFY)),
          ChunkObj None None (Some (Num OP_CHECKSIG))]
   \<and> classify rd isValid
        [ChunkObj None None (Some (Num OP_DUP)), ChunkObj None None (Some (Num OP_HASH160)),
         ChunkObj (Some [0x00]) (Some (Num 1)) (Some (Num 1)),
         ChunkObj None None (Some (Num OP_EQUALVERIFY)),
         ChunkObj None None (Some (Num OP_CHECKSIG))]
       = Inr (types PUBKEYHASH_OUT)"
  by (simp add: p2pkh_short_parse classify_PUBKEYHASH_OUT_iff isPublicKeyHashOut_def)

subsection \<open>The public-key hash of an output\<close>

text \<open>
  \<open>getPublicKeyHash\<close> fails with \<open>PreconditionFailed\<close> exactly when \<open>classify\<close> does
  not return \<open>PUBKEYHASH_OUT\<close> (which includes a \<open>classify\<close> that throws); in every other
  case the result is the payload of the third chunk, whatever its length. The script is
  the same after the call.
\<close>

lemma getPublicKeyHash_result:
  "(fst (getPublicKeyHash s) = Inl PreconditionFailed)
     = (classify rd isValid s \<noteq> Inr (types PUBKEYHASH_OUT))
   \<and> (fst (getPublicKeyHash s) \<noteq> Inl PreconditionFailed) =
       (\<exists>h. buf (s ! 2) = Some h \<and> fst (getPublicKeyHash s) = Inr (Some h)
            \<and> classify rd isValid s = Inr (types PUBKEYHASH_OUT))
   \<and> snd (getPublicKeyHash s) = s"
  by (auto simp: classify_PUBKEYHASH_OUT_iff getPublicKeyHash_def checkState_def
      isPublicKeyHashOut_def)

text \<open>On scenario E1 of the spec the result is the 20 zero bytes.\<close>

lemma getPublicKeyHash_scenario_E1:
  "fromBuffer rd ([0x76, 0xa9, 0x14] @ replicate 20 0 @ [0x88, 0xac]) = Inr p2pkh_zero
   \<and> classify rd isValid_by_length p2pkh_zero = Inr (types PUBKEYHASH_OUT)
   \<and> fst (getPublicKeyHash p2pkh_zero) = Inr (Some (replicate 20 0))
   \<and> snd (getPublicKeyHash p2pkh_zero) = p2pkh_zero"
  using getPublicKeyHash_result [of p2pkh_zero rd isValid_by_length]
    scenario_E1(1) [of rd] scenario_E1(2) [of rd] scenario_E1(3)
  by simp

text \<open>
  Claim C9 says that \<open>getPublicKeyHash\<close> on a script classified \<open>PUBKEYHASH_OUT\<close> returns
  the payload of the third chunk, the 20-byte public-key hash. The bytes
  \<open>76 a9 01 00 88 ac\<close> parse to a script that \<open>classify\<close> takes for a \<open>PUBKEYHASH_OUT\<close>,
  because \<open>isPublicKeyHashOut\<close> does not test the length of the payload; on it
  \<open>getPublicKeyHash\<close> does not fail and returns the one byte \<open>00\<close>, which is not a 20-byte
  hash. The script is the same after the call.
\<close>

theorem C9_getPublicKeyHash_returns_one_byte:
  "fromBuffer rd [0x76, 0xa9, 0x01, 0x00, 0x88, 0xac] =
     Inr [ChunkObj None None (Some (Num OP_DUP)), ChunkObj None None (Some (Num OP_HASH160)),
          ChunkObj (Some [0x00]) (Some (Num 1)) (Some (Num 1)),
          ChunkObj None None (Some (Num OP_EQUALVERIFY)),
          ChunkObj None None (Some (Num OP_CHECKSIG))]
   \<and> classify rd isValid
        [ChunkObj None None (Some (Num OP_DUP)), ChunkObj None None (Some (Num OP_HASH160)),
         ChunkObj (Some [0x00]) (Some (Num 1)) (Some (Num 1)),
         ChunkObj None None (Some (Num OP_EQUALVERIFY)),
         ChunkObj None None (Some (Num OP_CHECKSIG))]
       = Inr (types PUBKEYHASH_OUT)
   \<and> getPublicKeyHash
        [ChunkObj None None (Some (Num OP_DUP)), ChunkObj None None (Some (Num OP_HASH160)),
         ChunkObj (Some [0x00]) (Some (Num 1)) (Some (Num 1)),
         ChunkObj None None (Some (Num OP_EQUALVERIFY)),
         ChunkObj None None (Some (Num OP_CHECKSIG))]
       = (Inr (Some [0x00]),
          [ChunkObj None None (Some (Num OP_DUP)), ChunkObj None None (Some (Num OP_HASH160)),
           ChunkObj (Some [0x00]) (Some (Num 1)) (Some (Num 1)),
           ChunkObj None None (Some (Num OP_EQUALVERIFY)),
           ChunkObj None None (Some (Num OP_CHECKSIG))])
   \<and> length [0x00 :: byte] \<noteq> 20"
  by (simp add: p2pkh_short_parse classify_PUBKEYHASH_OUT_iff isPublicKeyHashOut_def
      getPublicKeyHash_def checkState_def)

subsection \<open>Adding a payload or a script\<close>

text \<open>
  The minimum-encoding rule in the words of section 4.6 of the spec, and the push chunk
  it describes for a payload.
\<close>

definition min_push_opcode :: "nat \<Rightarrow> int" where
  "min_push_opcode L =
     (if 0 < L \<and> L < 0x4c then int L
      else if L < 2 ^ 8 then OP_PUSHDATA1
      else if L < 2 ^ 16 then OP_PUSHDATA2
      else OP_PUSHDATA4)"

definition push_of :: "bytes \<Rightarrow> jsobj" where
  "push_of b =
     ChunkObj (Some b) (Some (Num (int (length b)))) (Some (Num (min_push_opcode (length b))))"

lemma branch_Buffer: "addByType_branch (JObject (BufferObj b)) = Inr AddBuffer"
  by (simp add: addByType_branch_def)

lemma addBuffer_spec:
  "addBuffer s b pre =
     (if length b = 0 then Inr s
      else if length b < 2 ^ 32 then Inr (insertAtPosition s (push_of b) pre)
      else Inl PayloadTooLarge)"
proof -
  have *: "(int (length b) < 2 ^ k) = (length b < 2 ^ k)" for k
    using of_nat_less_iff [of "length b" "2 ^ k", where ?'a = int] by simp
  show ?thesis
    unfolding addBuffer_def Let_def push_of_def min_push_opcode_def
    using * [of 8] * [of 16] * [of 32]
    by (auto simp: op_defs)
qed

lemma add_Buffer:
  "add reg s (JObject (BufferObj b)) =
     (if length b = 0 then Inr s
      else if length b < 2 ^ 32 then Inr (s @ [push_of b])
      else Inl PayloadTooLarge)"
  by (simp add: add_def addByType_def branch_Buffer addBuffer_spec insertAtPosition_def)

lemma prepend_Buffer:
  "prepend reg s (JObject (BufferObj b)) =
     (if length b = 0 then Inr s
      else if length b < 2 ^ 32 then Inr (push_of b # s)
      else Inl PayloadTooLarge)"
  by (simp add: prepend_def addByType_def branch_Buffer addBuffer_spec insertAtPosition_def)

lemma add_Number: "add reg s (JNumber n) = Inr (s @ [ChunkObj None None (Some n)])"
  by (simp add: add_def addByType_def addByType_branch_def addOpcode_def insertAtPosition_def)

lemma add_Opcode: "add reg s (JObject (OpcodeObj n)) = Inr (s @ [ChunkObj None None n])"
  by (simp add: add_def addByType_def addByType_branch_def addOpcode_def insertAtPosition_def)

text \<open>
  Claim C5. Adding or prepending a payload of length \<open>L\<close> leaves the script as it is for
  \<open>L = 0\<close>, fails with \<open>PayloadTooLarge\<close> for \<open>L \<ge> 2^32\<close>, and otherwise inserts one
  chunk, at the end or at the front, whose payload is the input, whose declared length
  is \<open>L\<close> and whose opcode is \<open>L\<close> for \<open>0 < L < 0x4c\<close>, else \<open>OP_PUSHDATA1\<close> for
  \<open>L < 2^8\<close>, else \<open>OP_PUSHDATA2\<close> for \<open>L < 2^16\<close>, else \<open>OP_PUSHDATA4\<close>.
\<close>

theorem C5_push_opcode_by_length:
  "add reg s (JObject (BufferObj b)) =
     (if length b = 0 then Inr s
      else if length b < 2 ^ 32 then Inr (s @ [push_of b])
      else Inl PayloadTooLarge)
   \<and> prepend reg s (JObject (BufferObj b)) =
     (if length b = 0 then Inr s
      else if length b < 2 ^ 32 then Inr (push_of b # s)
      else Inl PayloadTooLarge)
   \<and> buf (push_of b) = Some b
   \<and> len (push_of b) = Some (Num (int (length b)))
   \<and> opcodenum (push_of b) =
       Some (Num (if 0 < length b \<and> length b < 0x4c then int (length b)
                  else if length b < 2 ^ 8 then OP_PUSHDATA1
                  else if length b < 2 ^ 16 then OP_PUSHDATA2
                  else OP_PUSHDATA4))"
  by (simp add: add_Buffer prepend_Buffer push_of_def min_push_opcode_def)

lemma instanceof_Script_object: "instanceof_Script obj \<Longrightarrow> typeof obj = ''object''"
  by (cases obj rule: instanceof_Script.cases) auto

lemma branch_never_Concat: "addByType_branch obj \<noteq> Inr Concat"
  using instanceof_Script_object [of obj]
  by (auto simp: addByType_branch_def split: sum.splits)

lemma ScriptObj_not_self: "s2 \<noteq> [ScriptObj s2]"
proof
  assume "s2 = [ScriptObj s2]"
  then have "size_list size s2 = size_list size [ScriptObj s2]" by simp
  then show False by simp
qed

text \<open>
  Claim C10. No value takes the branch of \<open>_addByType\<close> that tests \<open>obj instanceof
  Script\<close>: a \<open>Script\<close> is an object and takes the branch \<open>typeof obj === 'object'\<close>
  before it. So \<open>add\<close> and \<open>prepend\<close> insert a script \<open>s2\<close> into the chunks of \<open>s1\<close> as
  one element, and the result is never \<open>s1\<close> extended with the chunks of \<open>s2\<close>.
\<close>

theorem C10_script_argument_inserted_whole:
  "addByType_branch obj \<noteq> Inr Concat
   \<and> addByType_branch (JObject (ScriptObj s2)) = Inr InsertAtPosition
   \<and> add reg s1 (JObject (ScriptObj s2)) = Inr (s1 @ [ScriptObj s2])
   \<and> prepend reg s1 (JObject (ScriptObj s2)) = Inr (ScriptObj s2 # s1)
   \<and> add reg s1 (JObject (ScriptObj s2)) \<noteq> Inr (s1 @ s2)
   \<and> prepend reg s1 (JObject (ScriptObj s2)) \<noteq> Inr (s2 @ s1)"
proof -
  have b: "addByType_branch (JObject (ScriptObj s2)) = Inr InsertAtPosition"
    by (simp add: addByType_branch_def)
  have "ScriptObj s2 # s1 \<noteq> s2 @ s1"
  proof
    assume "ScriptObj s2 # s1 = s2 @ s1"
    then have "[ScriptObj s2] @ s1 = s2 @ s1" by simp
    then have "[ScriptObj s2] = s2" by (simp only: append_same_eq)
    with ScriptObj_not_self [of s2] show False by simp
  qed
  with b branch_never_Concat [of obj] ScriptObj_not_self [of s2] show ?thesis
    by (simp add: add_def prepend_def addByType_def insertAtPosition_def)
qed

subsection \<open>Data outputs\<close>

lemma isDataOut_shape:
  "isDataOut chunks =
     (chunks \<noteq> [] \<and> js_eq (opcodenum (chunks ! 0)) OP_RETURN \<and>
      (length chunks = 1 \<or>
       length chunks = 2 \<and> (\<exists>b. buf (chunks ! 1) = Some b \<and> length b \<le> 40)))"
proof -
  have "length_prop c = None" if "buf c \<noteq> None" for c
    using that by (cases c) auto
  then show ?thesis
    unfolding isDataOut_def array_len_def
    by (cases chunks) (auto split: option.splits)
qed

lemma buildDataOut_Buffer:
  "buildDataOut reg (JObject (BufferObj d)) =
     (if length d = 0 then Inr [ChunkObj None None (Some (Num OP_RETURN))]
      else if length d < 2 ^ 32 then Inr [ChunkObj None None (Some (Num OP_RETURN)), push_of d]
      else Inl PayloadTooLarge)"
  by (simp add: buildDataOut_def add_Number add_Buffer)

lemma buildDataOut_isDataOut:
  "(\<exists>s. buildDataOut reg (JObject (BufferObj d)) = Inr s \<and> isDataOut s) = (length d \<le> 40)"
  by (auto simp: buildDataOut_Buffer isDataOut_shape push_of_def)

text \<open>
  Claim C6. \<open>buildDataOut(data)\<close> returns a script for which \<open>isDataOut\<close> holds exactly
  when the payload, a Buffer or the bytes of a string, has at most 40 bytes. In general
  \<open>isDataOut\<close> holds exactly when the first chunk is \<open>OP_RETURN\<close> and the script has one
  chunk, or two with the second a push of at most 40 bytes: the last conjunct of the
  source, \<open>this.chunks[1].length === this.chunks.len\<close>, compares \<open>undefined\<close> with
  \<open>undefined\<close> and is true.
\<close>

theorem C6_data_out_bound:
  "(\<exists>s. buildDataOut reg (JObject (BufferObj d)) = Inr s \<and> isDataOut s) = (length d \<le> 40)
   \<and> (\<exists>s. buildDataOut reg (JString str) = Inr s \<and> isDataOut s)
       = (length (Buffer_of_string str) \<le> 40)
   \<and> isDataOut chunks =
       (chunks \<noteq> [] \<and> js_eq (opcodenum (chunks ! 0)) OP_RETURN \<and>
        (length chunks = 1 \<or>
         length chunks = 2 \<and> (\<exists>b. buf (chunks ! 1) = Some b \<and> length b \<le> 40)))"
proof -
  have "buildDataOut reg (JString str) = buildDataOut reg (JObject (BufferObj (Buffer_of_string str)))"
    by (simp add: buildDataOut_def)
  with buildDataOut_isDataOut [of reg d] buildDataOut_isDataOut [of reg "Buffer_of_string str"]
    isDataOut_shape [of chunks]
  show ?thesis by simp
qed

subsection \<open>Order of the identifiers\<close>

text \<open>
  The order of section 4.5 of the spec, in its words; running the identifiers in this
  order is what claim C4 says \<open>classify\<close> does.
\<close>

definition spec_order :: "ident list" where
  "spec_order =
     [PUBKEYHASH_OUT, PUBKEYHASH_IN, PUBKEY_OUT, PUBKEY_IN, SCRIPTHASH_OUT, SCRIPTHASH_IN,
      MULTISIG_OUT, MULTISIG_IN, DATA_OUT]"

text \<open>
  A 1-of-2 multisig redeem script with two 33-byte keys has 71 bytes; \<open>p2sh_spend\<close> is
  the input script \<open>OP_0 push(redeem script)\<close>, parsed from \<open>00 47\<close> followed by the
  redeem script.
\<close>

definition redeem_1of2 :: bytes where
  "redeem_1of2 = [0x51, 0x21] @ replicate 33 0x02 @ [0x21] @ replicate 33 0x03 @ [0x52, 0xae]"

definition p2sh_spend :: script where
  "p2sh_spend = [ChunkObj None None (Some (Num 0)),
                 ChunkObj (Some redeem_1of2) (Some (Num 71)) (Some (Num 71))]"

text \<open>
  A script of two pushes: 71 bytes, and 33 bytes that parse as \<open>OP_RETURN push(31 bytes)\<close>.
\<close>

definition pkh_and_sh_in :: script where
  "pkh_and_sh_in =
     [ChunkObj (Some (replicate 71 0x30)) (Some (Num 71)) (Some (Num 71)),
      ChunkObj (Some ([0x6a, 0x1f] @ replicate 31 0)) (Some (Num 33)) (Some (Num 33))]"

lemma classify_from_first_match:
  "(classify_from rd v ks s = Inr (types t)) =
     (\<exists>i<length ks. ks ! i = t \<and> identifiers rd v t s = Inr True \<and>
        (\<forall>j<i. identifiers rd v (ks ! j) s = Inr False))"
proof (induction ks)
  case Nil
  show ?case by simp
next
  case (Cons k ks)
  show ?case
  proof (cases "identifiers rd v k s")
    case (Inl e)
    then show ?thesis
      by (auto simp: Ex_less_Suc2 All_less_Suc2 gr0_conv_Suc)
  next
    case (Inr m)
    show ?thesis
    proof (cases m)
      case True
      with Inr show ?thesis
        by (auto simp: Ex_less_Suc2 All_less_Suc2 gr0_conv_Suc)
    next
      case False
      with Inr show ?thesis
        by (auto simp: Cons.IH Ex_less_Suc2 All_less_Suc2 gr0_conv_Suc)
    qed
  qed
qed

lemma classify_from_UNKNOWN:
  "(classify_from rd v ks s = Inr types_UNKNOWN) =
     (\<forall>t \<in> set ks. identifiers rd v t s = Inr False)"
proof (induction ks)
  case Nil
  show ?case by simp
next
  case (Cons k ks)
  show ?case
  proof (cases "identifiers rd v k s")
    case (Inl e)
    then show ?thesis by simp
  next
    case (Inr m)
    with Cons show ?thesis by (cases m) simp_all
  qed
qed

lemma isPublicKeyHashIn_first:
  assumes valid: "\<And>b. isValid (Some b) \<Longrightarrow> length b = 33 \<or> length b = 65"
    and pkh: "isPublicKeyHashIn isValid s"
  shows "classify rd isValid s = Inr (types PUBKEYHASH_IN)"
proof -
  from pkh have l: "length s = 2" and b: "buf (s ! 0) \<noteq> None"
    and r: "0x47 \<le> buf_length (s ! 0)" "buf_length (s ! 0) \<le> 0x49"
    by (simp_all add: isPublicKeyHashIn_def)
  from b obtain sig where sig: "buf (s ! 0) = Some sig" by auto
  with r have "length sig \<noteq> 33 \<and> length sig \<noteq> 65" by simp
  with valid [of sig] sig have "\<not> isValid (buf (s ! 0))" by auto
  then have "\<not> isPublicKeyOut isValid s" by (simp add: isPublicKeyOut_def)
  moreover from l have "\<not> isPublicKeyIn s" "\<not> isPublicKeyHashOut s"
    by (simp_all add: isPublicKeyIn_def isPublicKeyHashOut_def)
  ultimately show ?thesis using pkh
    by (simp add: classify_def identifier_keys_def)
qed

lemma p2sh_spend_classified:
  "fromBuffer rd ([0x00, 0x47] @ redeem_1of2) = Inr p2sh_spend
   \<and> identifiers rd isValid_by_length MULTISIG_IN p2sh_spend = Inr True
   \<and> identifiers rd isValid_by_length SCRIPTHASH_IN p2sh_spend = Inr True
   \<and> classify rd isValid_by_length p2sh_spend = Inr (types MULTISIG_IN)
   \<and> classify_from rd isValid_by_length spec_order p2sh_spend = Inr (types SCRIPTHASH_IN)"
  by code_simp




subsection \<open>Multisig outputs\<close>

lemma hexdigit_value: "n < 16 \<Longrightarrow> digit_value (hexdigit n) = Some n"
proof -
  assume "n < 16"
  then consider "n = 0" | "n = 1" | "n = 2" | "n = 3" | "n = 4" | "n = 5" | "n = 6" | "n = 7"
    | "n = 8" | "n = 9" | "n = 10" | "n = 11" | "n = 12" | "n = 13" | "n = 14" | "n = 15"
    by atomize_elim arith
  then show ?thesis
    by cases (simp_all add: hexdigit_def digit_value_def)
qed

lemma Buffer_of_hex_toString_hex:
  "Buffer_of_hex (toString_hex bs @ rest) =
     (case Buffer_of_hex rest of Inl e \<Rightarrow> Inl e | Inr r \<Rightarrow> Inr (bs @ r))"
proof (induction bs)
  case Nil
  show ?case by (simp add: toString_hex_def split: sum.splits)
next
  case (Cons b bs)
  have d: "unat b div 16 < 16" using unsigned_less [of b, where ?'a = nat] by simp
  have "16 * (unat b div 16) + unat b mod 16 = unat b" by simp
  then have "(of_nat (16 * (unat b div 16) + unat b mod 16) :: byte) = b" by simp
  with Cons show ?case
    by (simp add: toString_hex_def hex_byte_def hexdigit_value d split: sum.splits)
qed

lemma toString_hex_inj: "inj toString_hex"
proof (rule injI)
  fix x y assume "toString_hex x = toString_hex y"
  then have "Buffer_of_hex (toString_hex x @ []) = Buffer_of_hex (toString_hex y @ [])" by simp
  then show "x = y" unfolding Buffer_of_hex_toString_hex by simp
qed

lemma map_insort_key: "map g (insort_key (\<lambda>x. f (g x)) x xs) = insort_key f (g x) (map g xs)"
  by (induction xs) auto

lemma map_sort_key: "map g (sort_key (\<lambda>x. f (g x)) xs) = sort_key f (map g xs)"
  by (induction xs) (auto simp: map_insort_key)

lemma sorted_buffers_perm:
  assumes "mset p1 = mset p2"
  shows "map tb (sort_key (\<lambda>pubkey. PublicKey_toString tb pubkey) p1)
       = map tb (sort_key (\<lambda>pubkey. PublicKey_toString tb pubkey) p2)"
proof -
  have key: "PublicKey_toString tb = (\<lambda>pubkey. toString_hex (tb pubkey))"
    by (rule ext) (simp add: PublicKey_toString_def)
  from assms have "mset (map tb p1) = mset (map tb p2)" by simp
  moreover have "inj_on toString_hex (set (map tb p1))"
    using toString_hex_inj by (rule inj_on_subset) simp
  ultimately have "sort_key toString_hex (map tb p1) = sort_key toString_hex (map tb p2)"
    by (rule sort_key_eq_sort_key)
  then show ?thesis unfolding key by (simp only: map_sort_key)
qed

text \<open>
  The script that \<open>buildMultisigOut\<close> returns, for \<open>m\<close> in \<open>[0,16]\<close> and at most 16 keys
  whose serializations are not empty: the small integer of \<open>m\<close>, the pushes of the keys
  in the sorted order, the small integer of the number of keys, \<open>OP_CHECKMULTISIG\<close>.
\<close>

lemma add_all_pushes:
  "\<forall>b \<in> set bufs. 0 < length b \<and> length b < 2 ^ 32 \<Longrightarrow>
   add_all reg s bufs = Inr (s @ map push_of bufs)"
  by (induction bufs arbitrary: s) (simp_all add: add_Buffer)

lemma buildMultisigOut_shape:
  assumes m: "0 \<le> m" "m \<le> 16" and n: "length pubkeys \<le> 16"
    and keys: "\<forall>k \<in> set pubkeys. 0 < length (tb k) \<and> length (tb k) < 2 ^ 32"
  shows "buildMultisigOut reg tb pubkeys m False =
     Inr ([ChunkObj None None (Some (Num (if m = 0 then OP_0 else OP_1 + m - 1)))]
          @ map (\<lambda>k. push_of (tb k)) (sort_key (PublicKey_toString tb) pubkeys)
          @ [ChunkObj None None
               (Some (Num (if pubkeys = [] then OP_0 else OP_1 + int (length pubkeys) - 1))),
             ChunkObj None None (Some (Num OP_CHECKMULTISIG))])"
proof -
  have "\<forall>b \<in> set (map tb (sort_key (PublicKey_toString tb) pubkeys)).
      0 < length b \<and> length b < 2 ^ 32"
    using keys by simp
  from add_all_pushes [OF this] m n show ?thesis
    unfolding buildMultisigOut_def Let_def
    by (simp add: smallInt_def add_Opcode add_Number comp_def)
qed

lemma toBuffer_append: "toBuffer (a @ b) = toBuffer a @ toBuffer b"
  unfolding toBuffer_def using foldl_toBuffer_chunk [of "foldl toBuffer_chunk [] a" b] by simp

lemma toBuffer_direct_pushes:
  "\<forall>k \<in> set ks. 0 < length (tb k) \<and> length (tb k) < 0x4c \<Longrightarrow>
   toBuffer (map (\<lambda>k. push_of (tb k)) ks) = concat (map (\<lambda>k. of_nat (length (tb k)) # tb k) ks)"
  by (induction ks)
    (simp_all add: toBuffer_Nil toBuffer_Cons push_of_def min_push_opcode_def toBuffer_chunk_def
      writeUInt8_def write_bytes_def op_defs)

text \<open>
  Claim C7. Without \<open>noSorting\<close>, \<open>buildMultisigOut\<close> returns the same script, and so the
  same bytes (or fails in the same way), for two lists \<open>p1\<close> and \<open>p2\<close> of public keys that
  are permutations of each other, because the keys are inserted in ascending order of the
  hexadecimal form of their serialization: for \<open>m\<close> in \<open>[0,16]\<close> and at most 16 keys
  whose serializations are not empty, both calls return the small integer of \<open>m\<close>, the
  pushes of the keys in an order \<open>ks\<close> that is a permutation of the keys and ascending in
  the hexadecimal form, the small integer of the number of keys, and \<open>OP_CHECKMULTISIG\<close>.
  When every serialization is shorter than \<open>0x4c\<close> bytes (a public key has 33 or 65),
  the bytes of both are the opcode of \<open>m\<close>, each key of \<open>ks\<close> after its length byte, the
  opcode of the number of keys, and \<open>0xae\<close>.
\<close>

theorem C7_multisig_out_deterministic:
  assumes "mset p1 = mset p2"
  shows "buildMultisigOut reg tb p1 m False = buildMultisigOut reg tb p2 m False
    \<and> map_sum id toBuffer (buildMultisigOut reg tb p1 m False)
      = map_sum id toBuffer (buildMultisigOut reg tb p2 m False)
    \<and> (0 \<le> m \<and> m \<le> 16 \<and> length p1 \<le> 16
        \<and> (\<forall>k \<in> set p1. 0 < length (tb k) \<and> length (tb k) < 2 ^ 32) \<longrightarrow>
       (\<exists>ks. mset ks = mset p1 \<and> sorted (map (PublicKey_toString tb) ks)
          \<and> buildMultisigOut reg tb p1 m False =
             Inr ([ChunkObj None None (Some (Num (if m = 0 then OP_0 else OP_1 + m - 1)))]
                  @ map (\<lambda>k. push_of (tb k)) ks
                  @ [ChunkObj None None
                       (Some (Num (if p1 = [] then OP_0 else OP_1 + int (length p1) - 1))),
                     ChunkObj None None (Some (Num OP_CHECKMULTISIG))])
          \<and> buildMultisigOut reg tb p2 m False =
             Inr ([ChunkObj None None (Some (Num (if m = 0 then OP_0 else OP_1 + m - 1)))]
                  @ map (\<lambda>k. push_of (tb k)) ks
                  @ [ChunkObj None None
                       (Some (Num (if p1 = [] then OP_0 else OP_1 + int (length p1) - 1))),
                     ChunkObj None None (Some (Num OP_CHECKMULTISIG))])
          \<and> ((\<forall>k \<in> set p1. length (tb k) < 0x4c) \<longrightarrow>
               map_sum id toBuffer (buildMultisigOut reg tb p1 m False) =
                 Inr ([word_of_int (if m = 0 then 0x00 else 0x50 + m)]
                      @ concat (map (\<lambda>k. of_nat (length (tb k)) # tb k) ks)
                      @ [word_of_int (if p1 = [] then 0x00 else 0x50 + int (length p1)), 0xae])
               \<and> map_sum id toBuffer (buildMultisigOut reg tb p2 m False) =
                 Inr ([word_of_int (if m = 0 then 0x00 else 0x50 + m)]
                      @ concat (map (\<lambda>k. of_nat (length (tb k)) # tb k) ks)
                      @ [word_of_int (if p1 = [] then 0x00 else 0x50 + int (length p1)), 0xae]))))"
proof -
  from assms have l: "length p1 = length p2" by (rule mset_eq_length)
  note s = sorted_buffers_perm [OF assms, of tb]
  define F where "F = (\<lambda>bufs n.
     case smallInt m of
        Inl e \<Rightarrow> Inl e
      | Inr op_m \<Rightarrow>
     (case add reg [] (JObject op_m) of
        Inl e \<Rightarrow> Inl e
      | Inr s1 \<Rightarrow>
     (case add_all reg s1 bufs of
        Inl e \<Rightarrow> Inl e
      | Inr s2 \<Rightarrow>
     (case smallInt (int n) of
        Inl e \<Rightarrow> Inl e
      | Inr op_n \<Rightarrow>
     (case add reg s2 (JObject op_n) of
        Inl e \<Rightarrow> Inl e
      | Inr s3 \<Rightarrow> add reg s3 (JNumber (Num OP_CHECKMULTISIG)))))))"
  have "buildMultisigOut reg tb p m False
      = F (map tb (sort_key (\<lambda>pubkey. PublicKey_toString tb pubkey) p)) (length p)" for p
    unfolding F_def buildMultisigOut_def Let_def by simp
  then have eq: "buildMultisigOut reg tb p1 m False = buildMultisigOut reg tb p2 m False"
    by (metis s l)
  have shape: "\<exists>ks. mset ks = mset p1 \<and> sorted (map (PublicKey_toString tb) ks)
          \<and> buildMultisigOut reg tb p1 m False =
             Inr ([ChunkObj None None (Some (Num (if m = 0 then OP_0 else OP_1 + m - 1)))]
                  @ map (\<lambda>k. push_of (tb k)) ks
                  @ [ChunkObj None None
                       (Some (Num (if p1 = [] then OP_0 else OP_1 + int (length p1) - 1))),
                     ChunkObj None None (Some (Num OP_CHECKMULTISIG))])
          \<and> ((\<forall>k \<in> set p1. length (tb k) < 0x4c) \<longrightarrow>
               map_sum id toBuffer (buildMultisigOut reg tb p1 m False) =
                 Inr ([word_of_int (if m = 0 then 0x00 else 0x50 + m)]
                      @ concat (map (\<lambda>k. of_nat (length (tb k)) # tb k) ks)
                      @ [word_of_int (if p1 = [] then 0x00 else 0x50 + int (length p1)), 0xae]))"
    if m: "0 \<le> m" "m \<le> 16" and n: "length p1 \<le> 16"
      and keys: "\<forall>k \<in> set p1. 0 < length (tb k) \<and> length (tb k) < 2 ^ 32"
  proof -
    let ?ks = "sort_key (PublicKey_toString tb) p1"
    note sh = buildMultisigOut_shape [OF m n keys, of reg]
    have a: "mset ?ks = mset p1" "sorted (map (PublicKey_toString tb) ?ks)" by simp_all
    have b: "map_sum id toBuffer (buildMultisigOut reg tb p1 m False) =
                 Inr ([word_of_int (if m = 0 then 0x00 else 0x50 + m)]
                      @ concat (map (\<lambda>k. of_nat (length (tb k)) # tb k) ?ks)
                      @ [word_of_int (if p1 = [] then 0x00 else 0x50 + int (length p1)), 0xae])"
      if short: "\<forall>k \<in> set p1. length (tb k) < 0x4c"
    proof -
      from keys short have "\<forall>k \<in> set ?ks. 0 < length (tb k) \<and> length (tb k) < 0x4c" by simp
      from toBuffer_direct_pushes [OF this] show ?thesis
        unfolding sh by (simp add: toBuffer_append toBuffer_Cons toBuffer_Nil toBuffer_chunk_def
            writeUInt8_def op_defs)
    qed
    from a b sh show ?thesis by blast
  qed
  from eq shape show ?thesis by simp
qed

text \<open>
  The witness: three keys, given by their serializations, in two orders; both give the
  2-of-3 script with the keys in ascending order.
\<close>

theorem C7_multisig_out_deterministic_witness:
  "mset [[0x03, 0x10], [0x02, 0xff], [0x02, 0x0a :: byte]]
     = mset [[0x02, 0x0a], [0x03, 0x10], [0x02, 0xff]]
   \<and> (\<exists>ks. mset ks = mset [[0x03, 0x10], [0x02, 0xff], [0x02, 0x0a :: byte]]
         \<and> sorted (map (PublicKey_toString id) ks)
         \<and> buildMultisigOut spec_registry id [[0x03, 0x10], [0x02, 0xff], [0x02, 0x0a]] 2 False
             = Inr ([ChunkObj None None (Some (Num 0x52))] @ map push_of ks
                    @ [ChunkObj None None (Some (Num 0x53)), ChunkObj None None (Some (Num 0xae))])
         \<and> buildMultisigOut spec_registry id [[0x02, 0x0a], [0x03, 0x10], [0x02, 0xff]] 2 False
             = Inr ([ChunkObj None None (Some (Num 0x52))] @ map push_of ks
                    @ [ChunkObj None None (Some (Num 0x53)), ChunkObj None None (Some (Num 0xae))]))
   \<and> sorted (map (PublicKey_toString id) [[0x02, 0x0a], [0x02, 0xff], [0x03, 0x10 :: byte]])
   \<and> map_sum id toBuffer
        (buildMultisigOut spec_registry id [[0x03, 0x10], [0x02, 0xff], [0x02, 0x0a]] 2 False)
       = Inr [0x52, 2, 2, 0x0a, 2, 2, 0xff, 2, 3, 0x10, 0x53, 0xae]
   \<and> map_sum id toBuffer
        (buildMultisigOut spec_registry id [[0x02, 0x0a], [0x03, 0x10], [0x02, 0xff]] 2 False)
       = Inr [0x52, 2, 2, 0x0a, 2, 2, 0xff, 2, 3, 0x10, 0x53, 0xae]"
proof -
  have m: "mset [[0x03, 0x10], [0x02, 0xff], [0x02, 0x0a :: byte]]
     = mset [[0x02, 0x0a], [0x03, 0x10], [0x02, 0xff]]"
    by simp
  have h: "0 \<le> (2::int) \<and> (2::int) \<le> 16
      \<and> length [[0x03, 0x10], [0x02, 0xff], [0x02, 0x0a :: byte]] \<le> 16
      \<and> (\<forall>k \<in> set [[0x03, 0x10], [0x02, 0xff], [0x02, 0x0a :: byte]].
            0 < length (id k) \<and> length (id k) < 2 ^ 32)"
    by simp
  have o: "sorted (map (PublicKey_toString id) [[0x02, 0x0a], [0x02, 0xff], [0x03, 0x10 :: byte]])"
    by code_simp
  have e: "map_sum id toBuffer
        (buildMultisigOut spec_registry id [[0x03, 0x10], [0x02, 0xff], [0x02, 0x0a]] 2 False)
       = Inr [0x52, 2, 2, 0x0a, 2, 2, 0xff, 2, 3, 0x10, 0x53, 0xae]"
    by code_simp
  note t = C7_multisig_out_deterministic [OF m, of spec_registry id 2]
  from t h obtain ks where
    "mset ks = mset [[0x03, 0x10], [0x02, 0xff], [0x02, 0x0a :: byte]]"
    "sorted (map (PublicKey_toString id) ks)"
    "buildMultisigOut spec_registry id [[0x03, 0x10], [0x02, 0xff], [0x02, 0x0a]] 2 False
       = Inr ([ChunkObj None None (Some (Num 0x52))] @ map push_of ks
              @ [ChunkObj None None (Some (Num 0x53)), ChunkObj None None (Some (Num 0xae))])"
    "buildMultisigOut spec_registry id [[0x02, 0x0a], [0x03, 0x10], [0x02, 0xff]] 2 False
       = Inr ([ChunkObj None None (Some (Num 0x52))] @ map push_of ks
              @ [ChunkObj None None (Some (Num 0x53)), ChunkObj None None (Some (Num 0xae))])"
    by (auto simp: op_defs)
  then have x: "\<exists>ks. mset ks = mset [[0x03, 0x10], [0x02, 0xff], [0x02, 0x0a :: byte]]
         \<and> sorted (map (PublicKey_toString id) ks)
         \<and> buildMultisigOut spec_registry id [[0x03, 0x10], [0x02, 0xff], [0x02, 0x0a]] 2 False
             = Inr ([ChunkObj None None (Some (Num 0x52))] @ map push_of ks
                    @ [ChunkObj None None (Some (Num 0x53)), ChunkObj None None (Some (Num 0xae))])
         \<and> buildMultisigOut spec_registry id [[0x02, 0x0a], [0x03, 0x10], [0x02, 0xff]] 2 False
             = Inr ([ChunkObj None None (Some (Num 0x52))] @ map push_of ks
                    @ [ChunkObj None None (Some (Num 0x53)), ChunkObj None None (Some (Num 0xae))])"
    by blast
  from t e have e2: "map_sum id toBuffer
        (buildMultisigOut spec_registry id [[0x02, 0x0a], [0x03, 0x10], [0x02, 0xff]] 2 False)
       = Inr [0x52, 2, 2, 0x0a, 2, 2, 0xff, 2, 3, 0x10, 0x53, 0xae]"
    by simp
  from m x o e e2 show ?thesis by blast
qed

subsection \<open>Text round trip\<close>

lemma hexdigit_plain:
  "n < 16 \<Longrightarrow> \<not> is_space (hexdigit n) \<and> hexdigit n \<noteq> CHR ''-'' \<and> hexdigit n \<noteq> CHR ''+''
     \<and> hexdigit n \<noteq> CHR ''x'' \<and> hexdigit n \<noteq> CHR ''X'' \<and> hexdigit n \<noteq> CHR '' ''
     \<and> hexdigit n \<noteq> CHR ''O''"
proof -
  assume "n < 16"
  then consider "n = 0" | "n = 1" | "n = 2" | "n = 3" | "n = 4" | "n = 5" | "n = 6" | "n = 7"
    | "n = 8" | "n = 9" | "n = 10" | "n = 11" | "n = 12" | "n = 13" | "n = 14" | "n = 15"
    by atomize_elim arith
  then show ?thesis
    by cases (simp_all add: hexdigit_def is_space_def)
qed

text \<open>The characters \<open>n.toString(base)\<close> is made of.\<close>

definition plain_digit :: "nat \<Rightarrow> char \<Rightarrow> bool" where
  "plain_digit base c = (\<exists>d<base. c = hexdigit d)"

lemma digits_plain:
  "2 \<le> base \<Longrightarrow> list_all (plain_digit base) (digits base n) \<and> digits base n \<noteq> []"
proof (induction base n rule: digits.induct)
  case (1 base n)
  show ?case
  proof (cases "n < base")
    case True
    then show ?thesis
      using "1.prems" by (subst digits.simps, subst (2) digits.simps) (auto simp: plain_digit_def)
  next
    case False
    with "1.prems" have "list_all (plain_digit base) (digits base (n div base))"
      using "1.IH" by simp
    moreover have "n mod base < base" using "1.prems" by simp
    then have "plain_digit base (hexdigit (n mod base))"
      unfolding plain_digit_def by blast
    ultimately show ?thesis
      using False "1.prems" by (subst digits.simps, subst (2) digits.simps) simp
  qed
qed

lemma digits_value_snoc:
  "digits_value base (ds @ [c]) =
     digits_value base ds * base + (case digit_value c of None \<Rightarrow> 0 | Some d \<Rightarrow> d)"
  by (simp add: digits_value_def)

lemma digits_value_digits:
  "2 \<le> base \<Longrightarrow> base \<le> 16 \<Longrightarrow> digits_value base (digits base n) = n"
proof (induction base n rule: digits.induct)
  case (1 base n)
  show ?case
  proof (cases "n < base")
    case True
    with "1.prems" have "digits base n = [hexdigit n]" "n < 16"
      by (simp_all add: digits.simps)
    then show ?thesis
      by (simp add: digits_value_def hexdigit_value)
  next
    case False
    with "1.prems" have d: "digits base n = digits base (n div base) @ [hexdigit (n mod base)]"
      by (subst digits.simps) simp
    have "n mod base < 16" using "1.prems" by (simp add: less_le_trans [OF mod_less_divisor])
    moreover have "digits_value base (digits base (n div base)) = n div base"
      using "1.IH" False "1.prems" by simp
    ultimately show ?thesis
      unfolding d digits_value_snoc by (simp add: hexdigit_value)
  qed
qed

lemma parseInt_digits: "parseInt (digits 10 n) = Num (int n)"
proof -
  define ds where "ds = digits 10 n"
  have pl: "list_all (plain_digit 10) ds" and ne: "ds \<noteq> []"
    using digits_plain [of 10 n] by (simp_all add: ds_def)
  have each: "\<not> is_space c \<and> c \<noteq> CHR ''-'' \<and> c \<noteq> CHR ''+'' \<and> c \<noteq> CHR ''x'' \<and> c \<noteq> CHR ''X''
      \<and> is_digit 10 c" if "c \<in> set ds" for c
  proof -
    from that pl obtain d where d: "d < 10" "c = hexdigit d"
      by (auto simp: list_all_iff plain_digit_def)
    then have "d < 16" by simp
    from hexdigit_plain [OF this] hexdigit_value [OF this] d show ?thesis
      by (simp add: is_digit_def)
  qed
  from ne obtain c cs where ds: "ds = c # cs" by (cases ds) auto
  have s1: "dropWhile is_space ds = ds" using each [of c] ds by simp
  have t1: "take 1 ds \<noteq> ''-''" "take 1 ds \<noteq> ''+''" using each [of c] ds by simp_all
  have t2: "take 2 ds \<noteq> ''0x''" "take 2 ds \<noteq> ''0X''"
  proof -
    show "take 2 ds \<noteq> ''0x''"
    proof
      assume a: "take 2 ds = ''0x''"
      then have "CHR ''x'' \<in> set (take 2 ds)" by simp
      then have "CHR ''x'' \<in> set ds" by (rule in_set_takeD)
      with each show False by blast
    qed
    show "take 2 ds \<noteq> ''0X''"
    proof
      assume a: "take 2 ds = ''0X''"
      then have "CHR ''X'' \<in> set (take 2 ds)" by simp
      then have "CHR ''X'' \<in> set ds" by (rule in_set_takeD)
      with each show False by blast
    qed
  qed
  have tw: "takeWhile (is_digit 10) ds = ds"
    using each by (simp add: takeWhile_eq_all_conv)
  have v: "digits_value 10 ds = n" unfolding ds_def by (rule digits_value_digits) simp_all
  show ?thesis
    unfolding ds_def [symmetric] parseInt_def Let_def s1
    using t1 t2 ne by (simp add: tw v)
qed


text \<open>
  What the text round trip needs of the opcode registry: the canonical name of a number
  is a name of that number, has no space and is not a string of hexadecimal digits; no
  decimal numeral is a name; and \<open>OP_PUSHDATA1\<close>, \<open>OP_PUSHDATA2\<close> and \<open>OP_PUSHDATA4\<close> have
  names.
\<close>

definition wf_registry :: "registry \<Rightarrow> bool" where
  "wf_registry reg =
     ((\<forall>n name. Opcode_reverseMap reg n = Some name \<longrightarrow>
          Opcode_map reg name = Some n \<and> CHR '' '' \<notin> set name \<and> \<not> isHexa name) \<and>
      (\<forall>L. Opcode_map reg (digits 10 L) = None) \<and>
      Opcode_reverseMap reg OP_PUSHDATA1 \<noteq> None \<and>
      Opcode_reverseMap reg OP_PUSHDATA2 \<noteq> None \<and>
      Opcode_reverseMap reg OP_PUSHDATA4 \<noteq> None)"

text \<open>
  The chunks of the amended claim C8: a push as \<open>add\<close> and \<open>prepend\<close> insert it for a
  payload that is not empty, or a bare opcode that has a canonical name and is none of
  \<open>OP_PUSHDATA1\<close>, \<open>OP_PUSHDATA2\<close>, \<open>OP_PUSHDATA4\<close>.
\<close>

definition api_chunk :: "registry \<Rightarrow> jsobj \<Rightarrow> bool" where
  "api_chunk reg c =
     ((\<exists>b. c = push_of b \<and> 0 < length b \<and> length b < 2 ^ 32) \<or>
      (\<exists>n. c = ChunkObj None None (Some (Num n)) \<and> Opcode_reverseMap reg n \<noteq> None \<and>
           n \<noteq> OP_PUSHDATA1 \<and> n \<noteq> OP_PUSHDATA2 \<and> n \<noteq> OP_PUSHDATA4))"

text \<open>The text of a list of tokens, each after a space, and the tokens of a chunk.\<close>

definition join :: "string list \<Rightarrow> string" where
  "join ts = concat (map ((#) CHR '' '') ts)"

definition chunk_tokens :: "registry \<Rightarrow> jsobj \<Rightarrow> string list" where
  "chunk_tokens reg c =
     (case buf c of
        None \<Rightarrow> [the (reverseMap reg (opcodenum c))]
      | Some b \<Rightarrow>
          (if js_eq (opcodenum c) OP_PUSHDATA1 \<or> js_eq (opcodenum c) OP_PUSHDATA2
              \<or> js_eq (opcodenum c) OP_PUSHDATA4
           then [the (reverseMap reg (opcodenum c))] else [])
          @ [String (len c), ''0x'' @ toString_hex b])"

lemma toString_chunk_tokens:
  assumes "wf_registry reg" and "api_chunk reg c"
  shows "toString_chunk reg c = Inr (join (chunk_tokens reg c))"
  using assms
  by (auto simp: wf_registry_def api_chunk_def toString_chunk_def chunk_tokens_def join_def
      push_of_def min_push_opcode_def Opcode_toString_def op_defs)

lemma join_append: "join (xs @ ys) = join xs @ join ys"
  by (simp add: join_def)

lemma toString_loop_tokens:
  assumes "wf_registry reg" and "list_all (api_chunk reg) cs"
  shows "toString_loop reg str cs = Inr (str @ join (concat (map (chunk_tokens reg) cs)))"
  using assms(2)
proof (induction cs arbitrary: str)
  case Nil
  show ?case by (simp add: join_def)
next
  case (Cons c cs)
  then show ?case
    by (simp add: toString_chunk_tokens [OF assms(1)] join_append)
qed

lemma split_space_token:
  "CHR '' '' \<notin> set t \<Longrightarrow> split_space (t @ CHR '' '' # rest) = t # split_space rest"
  by (induction t) auto

lemma split_space_last: "CHR '' '' \<notin> set t \<Longrightarrow> split_space t = [t]"
  by (induction t) auto

lemma split_space_join:
  "\<forall>u \<in> set (t # ts). CHR '' '' \<notin> set u \<Longrightarrow> split_space (t @ join ts) = t # ts"
proof (induction ts arbitrary: t)
  case Nil
  then show ?case by (simp add: join_def split_space_last)
next
  case (Cons u us)
  have "join (u # us) = CHR '' '' # (u @ join us)" by (simp add: join_def)
  with Cons show ?case by (simp add: split_space_token)
qed


lemma Buffer_of_hex_toString_hex': "Buffer_of_hex (toString_hex b) = Inr b"
  using Buffer_of_hex_toString_hex [of b "[]"] by simp

lemma String_len: "String (Some (Num (int L))) = digits 10 L"
  by simp

lemma fromString_loop_tokens:
  assumes wf: "wf_registry reg" and c: "api_chunk reg c"
  shows "fromString_loop reg (chunk_tokens reg c @ rest) = push_chunk c (fromString_loop reg rest)"
proof -
  from c consider
      (push) b where "c = push_of b" "0 < length b" "length b < 2 ^ 32"
    | (bare) n where "c = ChunkObj None None (Some (Num n))" "Opcode_reverseMap reg n \<noteq> None"
        "n \<noteq> OP_PUSHDATA1" "n \<noteq> OP_PUSHDATA2" "n \<noteq> OP_PUSHDATA4"
    unfolding api_chunk_def by blast
  then show ?thesis
  proof cases
    case bare
    from bare(2) obtain name where n: "Opcode_reverseMap reg n = Some name" by auto
    with wf have "Opcode_map reg name = Some n" by (simp add: wf_registry_def)
    with bare n show ?thesis by (simp add: chunk_tokens_def)
  next
    case push
    let ?L = "length b"
    have digits_None: "Opcode_map reg (digits 10 ?L) = None"
      using wf by (simp add: wf_registry_def)
    show ?thesis
    proof (cases "?L < 76")
      case True
      with push have t: "chunk_tokens reg c = [digits 10 ?L, ''0x'' @ toString_hex b]"
        by (simp add: chunk_tokens_def push_of_def min_push_opcode_def op_defs)
      from True push have cc: "c = ChunkObj (Some b) (Some (Num (int ?L))) (Some (Num (int ?L)))"
        by (simp add: push_of_def min_push_opcode_def)
      from True push(2) show ?thesis
        by (simp only: t)
          (simp add: cc digits_None parseInt_digits Buffer_of_hex_toString_hex' op_defs Let_def)
    next
      case False
      define k where "k = min_push_opcode ?L"
      from False have k: "k = OP_PUSHDATA1 \<or> k = OP_PUSHDATA2 \<or> k = OP_PUSHDATA4"
        by (auto simp: k_def min_push_opcode_def)
      with wf obtain name where n: "Opcode_reverseMap reg k = Some name"
        by (auto simp: wf_registry_def)
      with wf have m: "Opcode_map reg name = Some k" by (simp add: wf_registry_def)
      have cc: "c = ChunkObj (Some b) (Some (Num (int ?L))) (Some (Num k))"
        using push by (simp add: push_of_def k_def)
      from k n have t: "chunk_tokens reg c = [name, digits 10 ?L, ''0x'' @ toString_hex b]"
        unfolding cc by (auto simp: chunk_tokens_def)
      from k show ?thesis
        by (simp only: t) (simp add: cc m parseInt_digits Buffer_of_hex_toString_hex' Let_def)
    qed
  qed
qed

lemma fromString_loop_all:
  assumes wf: "wf_registry reg" and "list_all (api_chunk reg) cs"
  shows "fromString_loop reg (concat (map (chunk_tokens reg) cs)) = Inr cs"
  using assms(2)
proof (induction cs)
  case Nil
  show ?case by simp
next
  case (Cons c cs)
  then show ?case
    by (simp add: fromString_loop_tokens [OF wf] push_chunk_def)
qed


lemma toString_hex_no_space: "CHR '' '' \<notin> set (toString_hex b)"
proof (induction b)
  case Nil
  show ?case by (simp add: toString_hex_def)
next
  case (Cons x xs)
  have "unat x div 16 < 16" using unsigned_less [of x, where ?'a = nat] by simp
  moreover have "unat x mod 16 < 16" by simp
  ultimately have "hexdigit (unat x div 16) \<noteq> CHR '' ''" "hexdigit (unat x mod 16) \<noteq> CHR '' ''"
    using hexdigit_plain by blast+
  with Cons show ?case by (simp add: toString_hex_def hex_byte_def)
qed

lemma digits_no_space: "CHR '' '' \<notin> set (digits 10 n)"
proof
  assume "CHR '' '' \<in> set (digits 10 n)"
  with digits_plain [of 10 n] obtain d where "d < 10" "CHR '' '' = hexdigit d"
    by (auto simp: list_all_iff plain_digit_def)
  with hexdigit_plain [of d] show False by simp
qed

lemma chunk_tokens_no_space:
  assumes wf: "wf_registry reg" and c: "api_chunk reg c" and t: "t \<in> set (chunk_tokens reg c)"
  shows "CHR '' '' \<notin> set t"
proof -
  have name: "CHR '' '' \<notin> set name" if "Opcode_reverseMap reg n = Some name" for n name
    using wf that by (simp add: wf_registry_def)
  from wf have pd: "Opcode_reverseMap reg OP_PUSHDATA1 \<noteq> None"
    "Opcode_reverseMap reg OP_PUSHDATA2 \<noteq> None" "Opcode_reverseMap reg OP_PUSHDATA4 \<noteq> None"
    by (simp_all add: wf_registry_def)
  from c t show ?thesis
    using pd
    by (auto simp: api_chunk_def chunk_tokens_def push_of_def min_push_opcode_def
        toString_hex_no_space digits_no_space dest: name split: if_splits)
qed

lemma not_isHexa_space: "CHR '' '' \<in> set str \<Longrightarrow> \<not> isHexa str"
proof -
  have "\<not> is_digit 16 (CHR '' '')" by (simp add: is_digit_def digit_value_def)
  then show "CHR '' '' \<in> set str \<Longrightarrow> \<not> isHexa str"
    by (auto simp: isHexa_def list_all_iff)
qed

lemma single_token_not_isHexa:
  assumes wf: "wf_registry reg" and c: "api_chunk reg c" and t: "chunk_tokens reg c = [t]"
  shows "\<not> isHexa t"
proof -
  from c t obtain n where "c = ChunkObj None None (Some (Num n))" "Opcode_reverseMap reg n \<noteq> None"
    by (auto simp: api_chunk_def chunk_tokens_def push_of_def split: if_splits)
  with t wf show ?thesis
    by (auto simp: chunk_tokens_def wf_registry_def)
qed

lemma chunk_tokens_nonempty: "chunk_tokens reg c \<noteq> []"
  by (simp add: chunk_tokens_def split: option.splits)

lemma text_roundtrip:
  assumes wf: "wf_registry reg" and ne: "cs \<noteq> []" and api: "list_all (api_chunk reg) cs"
  shows "\<exists>str. toString reg cs = Inr str \<and> fromString rd reg str = Inr cs"
proof -
  define tokens where "tokens = concat (map (chunk_tokens reg) cs)"
  from ne obtain c cs' where cs: "cs = c # cs'" by (cases cs) auto
  with chunk_tokens_nonempty [of reg c] obtain t ts where tt: "tokens = t # ts"
    by (cases tokens) (auto simp: tokens_def)
  have nosp: "\<forall>u \<in> set (t # ts). CHR '' '' \<notin> set u"
    using chunk_tokens_no_space [OF wf] api unfolding tt [symmetric] tokens_def
    by (auto simp: list_all_iff)
  have str: "toString reg cs = Inr (t @ join ts)"
    using toString_loop_tokens [OF wf api, of "[]"]
    by (simp add: toString_def tokens_def [symmetric] tt join_def)
  have nh: "\<not> isHexa (t @ join ts)"
  proof (cases ts)
    case Nil
    have "chunk_tokens reg c = [t] \<and> cs' = []"
    proof (cases cs')
      case Nil
      with tt cs \<open>ts = []\<close> show ?thesis by (simp add: tokens_def)
    next
      case (Cons c2 cs2)
      have "0 < length (chunk_tokens reg c)" "0 < length (chunk_tokens reg c2)"
        using chunk_tokens_nonempty [of reg c] chunk_tokens_nonempty [of reg c2] by simp_all
      moreover have "length tokens = length (chunk_tokens reg c) + length (chunk_tokens reg c2)
          + length (concat (map (chunk_tokens reg) cs2))"
        unfolding tokens_def cs Cons by simp
      ultimately have "1 < length tokens" by linarith
      with tt \<open>ts = []\<close> show ?thesis by simp
    qed
    with single_token_not_isHexa [OF wf, of c t] api cs Nil show ?thesis
      by (simp add: join_def)
  next
    case (Cons u us)
    then have "CHR '' '' \<in> set (t @ join ts)" by (simp add: join_def)
    then show ?thesis by (rule not_isHexa_space)
  qed
  have "fromString rd reg (t @ join ts) = fromString_loop reg (t # ts)"
    using nh split_space_join [OF nosp] by (simp add: fromString_def)
  also have "\<dots> = Inr cs"
    using fromString_loop_all [OF wf api] by (simp add: tokens_def [symmetric] tt)
  finally show ?thesis using str by blast
qed


lemma wf_spec_registry: "wf_registry spec_registry"
proof -
  have names: "list_all (\<lambda>(n, name). Opcode_map spec_registry name = Some n
      \<and> CHR '' '' \<notin> set name \<and> \<not> isHexa name)
      (map (\<lambda>(name, n). (n, name)) spec_opcodes)"
    by code_simp
  have a: "Opcode_map spec_registry name = Some n \<and> CHR '' '' \<notin> set name \<and> \<not> isHexa name"
    if "Opcode_reverseMap spec_registry n = Some name" for n name
  proof -
    from that have "(n, name) \<in> set (map (\<lambda>(name, n). (n, name)) spec_opcodes)"
      by (auto simp: spec_registry_def dest: map_of_SomeD)
    with names show ?thesis by (auto simp: list_all_iff)
  qed
  have O: "list_all (\<lambda>(name, n). CHR ''O'' \<in> set name) spec_opcodes"
    by code_simp
  have b: "Opcode_map spec_registry (digits 10 L) = None" for L
  proof (rule ccontr)
    assume "Opcode_map spec_registry (digits 10 L) \<noteq> None"
    then obtain n where "(digits 10 L, n) \<in> set spec_opcodes"
      by (auto simp: spec_registry_def dest: map_of_SomeD)
    with O have "CHR ''O'' \<in> set (digits 10 L)" by (auto simp: list_all_iff)
    with digits_plain [of 10 L] obtain d where "d < 10" "CHR ''O'' = hexdigit d"
      by (auto simp: list_all_iff plain_digit_def)
    with hexdigit_plain [of d] show False by simp
  qed
  have c: "Opcode_reverseMap spec_registry OP_PUSHDATA1 \<noteq> None
    \<and> Opcode_reverseMap spec_registry OP_PUSHDATA2 \<noteq> None
    \<and> Opcode_reverseMap spec_registry OP_PUSHDATA4 \<noteq> None"
    by code_simp
  from a b c show ?thesis unfolding wf_registry_def by blast
qed


lemma api_chunk_push: "0 < length b \<Longrightarrow> length b < 2 ^ 32 \<Longrightarrow> api_chunk reg (push_of b)"
  unfolding api_chunk_def by blast

lemma api_chunk_bare:
  "Opcode_reverseMap reg n \<noteq> None \<Longrightarrow> n \<noteq> OP_PUSHDATA1 \<Longrightarrow> n \<noteq> OP_PUSHDATA2 \<Longrightarrow>
   n \<noteq> OP_PUSHDATA4 \<Longrightarrow> api_chunk reg (ChunkObj None None (Some (Num n)))"
  unfolding api_chunk_def by blast

text \<open>
  \<open>add\<close> of a payload, and of an opcode that has a canonical name and is none of
  \<open>OP_PUSHDATA1\<close>, \<open>OP_PUSHDATA2\<close>, \<open>OP_PUSHDATA4\<close>, keeps a script within these chunks.
\<close>

lemma api_chunk_add_Buffer:
  "list_all (api_chunk reg) s \<Longrightarrow> add reg s (JObject (BufferObj b)) = Inr s' \<Longrightarrow>
   list_all (api_chunk reg) s'"
  by (auto simp: add_Buffer api_chunk_push split: if_splits)

lemma api_chunk_add_Number:
  "list_all (api_chunk reg) s \<Longrightarrow> Opcode_reverseMap reg n \<noteq> None \<Longrightarrow> n \<noteq> OP_PUSHDATA1 \<Longrightarrow>
   n \<noteq> OP_PUSHDATA2 \<Longrightarrow> n \<noteq> OP_PUSHDATA4 \<Longrightarrow> add reg s (JNumber (Num n)) = Inr s' \<Longrightarrow>
   list_all (api_chunk reg) s'"
  by (auto simp: add_Number api_chunk_bare)

text \<open>
  Claim C8 as stated fails on a bare opcode without a canonical name. \<open>add(0xba)\<close> on
  the empty script gives the chunk \<open>{opcodenum: 186}\<close>, which \<open>toString\<close> renders as
  \<open>0xba\<close>; \<open>fromString\<close> finds no opcode of that name, reads the number 186 from the
  token with \<open>parseInt\<close> and, since 186 is not a direct push length, throws
  \<open>Invalid script\<close>.
\<close>

theorem C8_unnamed_opcode_counterexample:
  "add spec_registry [] (JNumber (Num 186)) = Inr [ChunkObj None None (Some (Num 186))]
   \<and> toString spec_registry [ChunkObj None None (Some (Num 186))] = Inr ''0xba''
   \<and> fromString Strict spec_registry ''0xba'' = Inl InvalidScript
   \<and> fromString Lenient spec_registry ''0xba'' = Inl InvalidScript"
  by code_simp

text \<open>The empty script renders as the empty string, which \<open>fromString\<close> rejects too.\<close>

lemma empty_script_text:
  "toString reg [] = Inr []"
  "Opcode_map reg [] = None \<Longrightarrow> fromString rd reg [] = Inl InvalidScript"
  by (simp_all add: toString_def fromString_def isHexa_def parseInt_def)

text \<open>
  Claim C8, amended. For a registry as above and every script that is not empty and
  whose chunks are pushes of non-empty payloads, as \<open>add\<close> and \<open>prepend\<close> insert them,
  or bare opcodes with a canonical name other than \<open>OP_PUSHDATA1\<close>, \<open>OP_PUSHDATA2\<close>,
  \<open>OP_PUSHDATA4\<close>, \<open>toString\<close> returns a text and \<open>fromString\<close> of that text returns the
  script: the same chunks, with the same opcodes, payloads and declared lengths.
\<close>

theorem C8_text_roundtrip_named_opcodes:
  assumes "wf_registry reg" and "chunks \<noteq> []" and "list_all (api_chunk reg) chunks"
  shows "\<exists>str. toString reg chunks = Inr str \<and> fromString rd reg str = Inr chunks"
  using assms by (rule text_roundtrip)

text \<open>
  The witness is scenario E3 of the spec: \<open>OP_RETURN\<close> and a push of the five bytes of
  \<open>Hello\<close>, with the text \<open>OP_RETURN 5 0x48656c6c6f\<close>.
\<close>

theorem C8_text_roundtrip_named_opcodes_witness:
  "wf_registry spec_registry \<and> hello_script \<noteq> []
   \<and> list_all (api_chunk spec_registry) hello_script
   \<and> toString spec_registry hello_script = Inr ''OP_RETURN 5 0x48656c6c6f''
   \<and> fromString Strict spec_registry ''OP_RETURN 5 0x48656c6c6f'' = Inr hello_script
   \<and> fromString Lenient spec_registry ''OP_RETURN 5 0x48656c6c6f'' = Inr hello_script"
proof -
  have n: "Opcode_reverseMap spec_registry OP_RETURN \<noteq> None" by code_simp
  have h: "push_of [0x48, 0x65, 0x6c, 0x6c, 0x6f]
      = ChunkObj (Some [0x48, 0x65, 0x6c, 0x6c, 0x6f]) (Some (Num 5)) (Some (Num 5))"
    by (simp add: push_of_def min_push_opcode_def)
  have a: "list_all (api_chunk spec_registry) hello_script"
    unfolding hello_script_def
    using api_chunk_bare [OF n] api_chunk_push [of "[0x48, 0x65, 0x6c, 0x6c, 0x6f]" spec_registry]
    by (simp add: op_defs h)
  have ne: "hello_script \<noteq> []" by (simp add: hello_script_def)
  have t: "toString spec_registry hello_script = Inr ''OP_RETURN 5 0x48656c6c6f''"
    by code_simp
  from C8_text_roundtrip_named_opcodes [OF wf_spec_registry ne a] t
  have "fromString rd spec_registry ''OP_RETURN 5 0x48656c6c6f'' = Inr hello_script" for rd
    by simp
  with wf_spec_registry ne a t show ?thesis by simp
qed

end
